theory Spec2Isabelle
  imports Main "HOL-Library.AList"
begin

section \<open>JSON documents and the Python operations applied to them\<close>

text \<open>
  The documents are what \<^verbatim>\<open>json.loads\<close> returns: \<^verbatim>\<open>None\<close>, booleans, numbers, strings,
  lists and dictionaries. A dictionary is an association list in insertion order (the
  order \<^verbatim>\<open>.items()\<close> iterates in); lookups take the first entry of a key. Numbers are the
  integers; float literals are not represented.
\<close>

datatype json =
    JNull
  | JBool bool
  | JNum int
  | JStr string
  | JArr "json list"
  | JObj "(string \<times> json) list"

text \<open>The exceptions the code can raise on a document of the wrong shape.\<close>

datatype error = KeyError | TypeError | AttributeError

definition ebind :: "error + 'a \<Rightarrow> ('a \<Rightarrow> error + 'b) \<Rightarrow> error + 'b" where
  "ebind m f = (case m of Inl e \<Rightarrow> Inl e | Inr x \<Rightarrow> f x)"

text \<open>\<^verbatim>\<open>bool(x)\<close>: the truth value of a document.\<close>

fun py_bool :: "json \<Rightarrow> bool" where
  "py_bool JNull = False"
| "py_bool (JBool b) = b"
| "py_bool (JNum n) = (n \<noteq> 0)"
| "py_bool (JStr s) = (s \<noteq> [])"
| "py_bool (JArr xs) = (xs \<noteq> [])"
| "py_bool (JObj kvs) = (kvs \<noteq> [])"

text \<open>\<^verbatim>\<open>d.get(k, default)\<close> on a dictionary.\<close>

definition dict_get :: "(string \<times> json) list \<Rightarrow> string \<Rightarrow> json \<Rightarrow> json" where
  "dict_get kvs k d = (case map_of kvs k of None \<Rightarrow> d | Some v \<Rightarrow> v)"

text \<open>\<^verbatim>\<open>x.get(k, default)\<close> on any document: only dictionaries have the method.\<close>

fun py_get :: "json \<Rightarrow> string \<Rightarrow> json \<Rightarrow> error + json" where
  "py_get (JObj kvs) k d = Inr (dict_get kvs k d)"
| "py_get _ k d = Inl AttributeError"

text \<open>\<^verbatim>\<open>x[k]\<close> with a string key \<open>k\<close>.\<close>

fun py_getitem :: "json \<Rightarrow> string \<Rightarrow> error + json" where
  "py_getitem (JObj kvs) k = (case map_of kvs k of None \<Rightarrow> Inl KeyError | Some v \<Rightarrow> Inr v)"
| "py_getitem _ k = Inl TypeError"

fun is_substring :: "string \<Rightarrow> string \<Rightarrow> bool" where
  "is_substring p [] = (p = [])"
| "is_substring p (c # cs) = (take (length p) (c # cs) = p \<or> is_substring p cs)"

text \<open>\<^verbatim>\<open>k in x\<close> with a string \<open>k\<close>: a key of a dictionary, an element of a list, a
  substring of a string; the other documents are not containers.\<close>

fun py_in :: "string \<Rightarrow> json \<Rightarrow> error + bool" where
  "py_in k (JObj kvs) = Inr (k \<in> set (map fst kvs))"
| "py_in k (JArr xs) = Inr (JStr k \<in> set xs)"
| "py_in k (JStr s) = Inr (is_substring k s)"
| "py_in k _ = Inl TypeError"

text \<open>\<^verbatim>\<open>for x in v\<close>: the elements of a list, the keys of a dictionary, the characters of
  a string.\<close>

fun py_iter :: "json \<Rightarrow> error + json list" where
  "py_iter (JArr xs) = Inr xs"
| "py_iter (JObj kvs) = Inr (map (\<lambda>kv. JStr (fst kv)) kvs)"
| "py_iter (JStr s) = Inr (map (\<lambda>c. JStr [c]) s)"
| "py_iter _ = Inl TypeError"

text \<open>\<^verbatim>\<open>x + ys\<close> with a list \<open>ys\<close>: only a list can be added to a list.\<close>

fun py_concat :: "json \<Rightarrow> json list \<Rightarrow> error + json list" where
  "py_concat (JArr xs) ys = Inr (xs @ ys)"
| "py_concat _ ys = Inl TypeError"

text \<open>Decimal digits of a natural number, as \<^verbatim>\<open>str\<close> prints them.\<close>

fun show_nat :: "nat \<Rightarrow> string" where
  "show_nat n =
     (if n < 10 then [''0123456789'' ! n]
      else show_nat (n div 10) @ [''0123456789'' ! (n mod 10)])"

declare show_nat.simps [simp del]

text \<open>\<^verbatim>\<open>str(x)\<close>, as an f-string formats an id. Lists and dictionaries are never
  formatted: an id is used as a dictionary key, which raises for them, before any
  f-string mentions it.\<close>

fun py_str :: "json \<Rightarrow> string" where
  "py_str JNull = ''None''"
| "py_str (JBool b) = (if b then ''True'' else ''False'')"
| "py_str (JNum i) = (if i < 0 then ''-'' @ show_nat (nat (- i)) else show_nat (nat i))"
| "py_str (JStr s) = s"
| "py_str (JArr xs) = []"
| "py_str (JObj kvs) = []"

text \<open>Dictionary and set keys: lists and dictionaries are unhashable, and \<^verbatim>\<open>True\<close> and
  \<^verbatim>\<open>False\<close> are the same keys as 1 and 0.\<close>

datatype pykey = KNone | KNum int | KStr string

fun hash_key :: "json \<Rightarrow> error + pykey" where
  "hash_key JNull = Inr KNone"
| "hash_key (JBool b) = Inr (KNum (if b then 1 else 0))"
| "hash_key (JNum i) = Inr (KNum i)"
| "hash_key (JStr s) = Inr (KStr s)"
| "hash_key (JArr xs) = Inl TypeError"
| "hash_key (JObj kvs) = Inl TypeError"

text \<open>A loop whose body can raise: the first exception ends it.\<close>

fun foldM :: "('a \<Rightarrow> 's \<Rightarrow> error + 's) \<Rightarrow> 'a list \<Rightarrow> 's \<Rightarrow> error + 's" where
  "foldM f [] s = Inr s"
| "foldM f (x # xs) s = (case f x s of Inl e \<Rightarrow> Inl e | Inr s' \<Rightarrow> foldM f xs s')"

definition for_each :: "json \<Rightarrow> (json \<Rightarrow> 's \<Rightarrow> error + 's) \<Rightarrow> 's \<Rightarrow> error + 's" where
  "for_each v f s = ebind (py_iter v) (\<lambda>xs. foldM f xs s)"

section \<open>The graph builder (\<^verbatim>\<open>build_graph_data\<close> in app.py)\<close>

datatype node_type =
    ComponentGroup | Component | Subcomponent | Capability | Function | Specification
  | Integration | Technique | Application | Input | Output

datatype link_type =
    Contains | HasCapability | HasFunction | HasSpecification | HasIntegration
  | HasTechnique | HasApplication | HasInput | HasOutput

text \<open>The dictionaries of a node and of a link; the keys \<^verbatim>\<open>id\<close> and \<^verbatim>\<open>type\<close> are the fields
  \<open>nid\<close> and \<open>ntype\<close> of a node and \<open>ltype\<close> of a link. The root node has no key
  \<^verbatim>\<open>parent\<close>.\<close>

record node =
  nid :: json
  name :: json
  ntype :: node_type
  description :: json
  parent :: "json option"
  level :: nat
  expandable :: bool
  has_children :: bool

record link =
  source :: json
  target :: json
  ltype :: link_type

text \<open>The builder's three variables, and the dictionary it returns.\<close>

record bstate =
  nodes :: "node list"
  links :: "link list"
  node_map :: "pykey \<Rightarrow> node option"

record graph =
  g_nodes :: "node list"
  g_links :: "link list"

text \<open>\<^verbatim>\<open>nodes.append(n); node_map[n["id"]] = n\<close>\<close>

definition append_node :: "node \<Rightarrow> bstate \<Rightarrow> error + bstate" where
  "append_node n s =
     ebind (hash_key (nid n)) (\<lambda>k.
       Inr (s\<lparr>nodes := nodes s @ [n], node_map := (node_map s)(k \<mapsto> n)\<rparr>))"

definition append_link :: "json \<Rightarrow> json \<Rightarrow> link_type \<Rightarrow> bstate \<Rightarrow> bstate" where
  "append_link src tgt t s = s\<lparr>links := links s @ [\<lparr>source = src, target = tgt, ltype = t\<rparr>]\<rparr>"

subsection \<open>Outputs and inputs of an application\<close>

text \<open>The id of an output: its own \<^verbatim>\<open>id\<close> when it has one that is true, else one made
  of the application's id and the output's index.\<close>

definition output_id_of :: "json \<Rightarrow> nat \<Rightarrow> (string \<times> json) list \<Rightarrow> json" where
  "output_id_of app_id output_idx kvs =
     (case map_of kvs ''id'' of
        Some v \<Rightarrow>
          if py_bool v then v else JStr (py_str app_id @ ''-output-'' @ show_nat output_idx)
      | None \<Rightarrow> JStr (py_str app_id @ ''-output-'' @ show_nat output_idx))"

text \<open>The dictionary \<^verbatim>\<open>output_node\<close>.\<close>

definition output_node_of :: "json \<Rightarrow> nat \<Rightarrow> (string \<times> json) list \<Rightarrow> node" where
  "output_node_of app_id output_idx kvs =
     \<lparr>nid = output_id_of app_id output_idx kvs,
      name = dict_get kvs ''name'' (JStr (''Output '' @ show_nat (output_idx + 1))),
      ntype = Output,
      description = dict_get kvs ''description'' (JStr ''''),
      parent = Some app_id, level = 9, expandable = False, has_children = False\<rparr>"

text \<open>The body of \<^verbatim>\<open>for output_idx, output_item in enumerate(outputs)\<close>: the node and
  its link are added only if the id is not a key of \<^verbatim>\<open>node_map\<close>.\<close>

definition add_output :: "json \<Rightarrow> nat \<times> json \<Rightarrow> bstate \<Rightarrow> error + bstate" where
  "add_output app_id p s =
     (case snd p of
        JObj kvs \<Rightarrow>
          let output_id = output_id_of app_id (fst p) kvs;
              output_node = output_node_of app_id (fst p) kvs
          in ebind (hash_key output_id) (\<lambda>k.
               case node_map s k of
                 Some _ \<Rightarrow> Inr s
               | None \<Rightarrow>
                   ebind (append_node output_node s) (\<lambda>s1.
                     Inr (append_link app_id output_id HasOutput s1)))
      | _ \<Rightarrow> Inr s)"

text \<open>The body of \<^verbatim>\<open>for input_item in inputs\<close> that emits the input nodes.\<close>

definition add_input :: "json \<Rightarrow> json \<Rightarrow> bstate \<Rightarrow> error + bstate" where
  "add_input app_id input_item s =
     (case input_item of
        JObj kvs \<Rightarrow>
          let input_id = dict_get kvs ''id''
                 (JStr (py_str app_id @ ''-input-'' @ show_nat (length (nodes s))));
              input_node = \<lparr>nid = input_id,
                 name = dict_get kvs ''name'' (JStr ''Input''),
                 ntype = Input,
                 description = dict_get kvs ''description'' (JStr ''''),
                 parent = Some app_id, level = 9, expandable = False, has_children = False\<rparr>
          in ebind (append_node input_node s) (\<lambda>s1.
               Inr (append_link app_id input_id HasInput s1))
      | _ \<Rightarrow> Inr s)"

text \<open>The first loop over the inputs: the outputs nested in input fragments, a list
  extending and a single dictionary appended to \<^verbatim>\<open>nested_outputs\<close>.\<close>

fun nested_outputs_of :: "json list \<Rightarrow> json list" where
  "nested_outputs_of [] = []"
| "nested_outputs_of (input_item # rest) =
     (case input_item of
        JObj kvs \<Rightarrow>
          (case map_of kvs ''outputs'' of
             Some (JArr input_outputs) \<Rightarrow> input_outputs @ nested_outputs_of rest
           | Some (JObj d) \<Rightarrow> JObj d # nested_outputs_of rest
           | _ \<Rightarrow> nested_outputs_of rest)
      | _ \<Rightarrow> nested_outputs_of rest)"

text \<open>The loop "Ensure uniqueness by ID", with its two variables \<^verbatim>\<open>unique_outputs\<close> and
  \<^verbatim>\<open>output_ids\<close>.\<close>

fun unique_outputs :: "json list \<Rightarrow> json list \<Rightarrow> pykey set \<Rightarrow> error + json list" where
  "unique_outputs [] acc output_ids = Inr acc"
| "unique_outputs (output # outputs) acc output_ids =
     (case output of
        JObj kvs \<Rightarrow>
          let output_id = dict_get kvs ''id'' JNull in
          if py_bool output_id then
            (case hash_key output_id of
               Inl e \<Rightarrow> Inl e
             | Inr k \<Rightarrow>
                 if k \<notin> output_ids
                 then unique_outputs outputs (acc @ [output]) (insert k output_ids)
                 else unique_outputs outputs acc output_ids)
          else unique_outputs outputs (acc @ [output]) output_ids
      | _ \<Rightarrow> unique_outputs outputs acc output_ids)"

subsection \<open>Applications up to capabilities\<close>

text \<open>The body of \<^verbatim>\<open>for app in applications\<close>.\<close>

definition add_application :: "json \<Rightarrow> json \<Rightarrow> bstate \<Rightarrow> error + bstate" where
  "add_application technique_id app s =
     (case app of
        JObj kvs \<Rightarrow>
          let app_id = dict_get kvs ''id''
                 (JStr (py_str technique_id @ ''-app-'' @ show_nat (length (nodes s))));
              inputs = dict_get kvs ''inputs'' (JArr []);
              standalone_outputs = dict_get kvs ''outputs'' (JArr [])
          in ebind (py_iter inputs) (\<lambda>input_items.
             ebind (py_concat standalone_outputs (nested_outputs_of input_items)) (\<lambda>all_outputs.
             ebind (unique_outputs all_outputs [] {}) (\<lambda>outputs.
               let has_app_children = (py_bool inputs \<or> outputs \<noteq> []);
                   app_node = \<lparr>nid = app_id,
                      name = dict_get kvs ''name'' (JStr ''Application''),
                      ntype = Application,
                      description = dict_get kvs ''description'' (JStr ''''),
                      parent = Some technique_id, level = 8,
                      expandable = has_app_children, has_children = has_app_children\<rparr>
               in ebind (append_node app_node s) (\<lambda>s1.
                  ebind (foldM (add_input app_id) input_items
                           (append_link technique_id app_id HasApplication s1)) (\<lambda>s2.
                    foldM (add_output app_id) (enumerate 0 outputs) s2)))))
      | _ \<Rightarrow> Inr s)"

text \<open>The body of \<^verbatim>\<open>for technique in techniques\<close>.\<close>

definition add_technique :: "json \<Rightarrow> json \<Rightarrow> bstate \<Rightarrow> error + bstate" where
  "add_technique integration_id technique s =
     (case technique of
        JObj kvs \<Rightarrow>
          let technique_id = dict_get kvs ''id''
                 (JStr (py_str integration_id @ ''-technique-'' @ show_nat (length (nodes s))));
              applications = dict_get kvs ''applications'' (JArr []);
              has_technique_children = py_bool applications;
              technique_node = \<lparr>nid = technique_id,
                 name = dict_get kvs ''name'' (JStr ''Technique''),
                 ntype = Technique,
                 description = dict_get kvs ''description'' (JStr ''''),
                 parent = Some integration_id, level = 7,
                 expandable = has_technique_children, has_children = has_technique_children\<rparr>
          in ebind (append_node technique_node s) (\<lambda>s1.
               for_each applications (add_application technique_id)
                 (append_link integration_id technique_id HasTechnique s1))
      | _ \<Rightarrow> Inr s)"

text \<open>The block "Add integration if present", entered for a non-empty dictionary.\<close>

definition add_integration :: "json \<Rightarrow> json \<Rightarrow> bstate \<Rightarrow> error + bstate" where
  "add_integration spec_id integration s =
     (case integration of
        JObj kvs \<Rightarrow>
          if kvs = [] then Inr s
          else
            let integration_id = dict_get kvs ''id''
                   (JStr (py_str spec_id @ ''-integration-'' @ show_nat (length (nodes s))));
                techniques = dict_get kvs ''techniques'' (JArr []);
                has_integration_children = py_bool techniques;
                integration_node = \<lparr>nid = integration_id,
                   name = dict_get kvs ''name'' (JStr ''Integration''),
                   ntype = Integration,
                   description = dict_get kvs ''description'' (JStr ''''),
                   parent = Some spec_id, level = 6,
                   expandable = has_integration_children,
                   has_children = has_integration_children\<rparr>
            in ebind (append_node integration_node s) (\<lambda>s1.
                 for_each techniques (add_technique integration_id)
                   (append_link spec_id integration_id HasIntegration s1))
      | _ \<Rightarrow> Inr s)"

text \<open>The body of \<^verbatim>\<open>for spec in specifications\<close>.\<close>

definition add_specification :: "json \<Rightarrow> json \<Rightarrow> bstate \<Rightarrow> error + bstate" where
  "add_specification function_id spec s =
     (case spec of
        JObj kvs \<Rightarrow>
          let spec_id = dict_get kvs ''id''
                 (JStr (py_str function_id @ ''-spec-'' @ show_nat (length (nodes s))));
              integration = dict_get kvs ''integration'' JNull;
              has_spec_children = py_bool integration;
              spec_node = \<lparr>nid = spec_id,
                 name = dict_get kvs ''name'' (JStr ''Specification''),
                 ntype = Specification,
                 description = dict_get kvs ''description'' (JStr ''''),
                 parent = Some function_id, level = 5,
                 expandable = has_spec_children, has_children = has_spec_children\<rparr>
          in ebind (append_node spec_node s) (\<lambda>s1.
               add_integration spec_id integration
                 (append_link function_id spec_id HasSpecification s1))
      | _ \<Rightarrow> Inr s)"

text \<open>The body of \<^verbatim>\<open>for function in functions\<close>.\<close>

definition add_function :: "json \<Rightarrow> json \<Rightarrow> bstate \<Rightarrow> error + bstate" where
  "add_function capability_id function s =
     (case function of
        JObj kvs \<Rightarrow>
          let function_id = dict_get kvs ''id''
                 (JStr (py_str capability_id @ ''-function-'' @ show_nat (length (nodes s))));
              specifications = dict_get kvs ''specifications'' (JArr []);
              has_function_children = py_bool specifications;
              function_node = \<lparr>nid = function_id,
                 name = dict_get kvs ''name'' (JStr ''Function''),
                 ntype = Function,
                 description = dict_get kvs ''description'' (JStr ''''),
                 parent = Some capability_id, level = 4,
                 expandable = has_function_children, has_children = has_function_children\<rparr>
          in ebind (append_node function_node s) (\<lambda>s1.
               for_each specifications (add_specification function_id)
                 (append_link capability_id function_id HasFunction s1))
      | _ \<Rightarrow> Inr s)"

text \<open>The body of \<^verbatim>\<open>for capability in capabilities\<close>.\<close>

definition add_capability :: "string \<Rightarrow> json \<Rightarrow> bstate \<Rightarrow> error + bstate" where
  "add_capability subcomp_id capability s =
     (case capability of
        JObj kvs \<Rightarrow>
          let capability_id = dict_get kvs ''id''
                 (JStr (subcomp_id @ ''-capability-'' @ show_nat (length (nodes s))));
              functions = dict_get kvs ''functions'' (JArr []);
              has_capability_children = py_bool functions;
              capability_node = \<lparr>nid = capability_id,
                 name = dict_get kvs ''name'' (JStr ''Capability''),
                 ntype = Capability,
                 description = dict_get kvs ''description'' (JStr ''''),
                 parent = Some (JStr subcomp_id), level = 3,
                 expandable = has_capability_children, has_children = has_capability_children\<rparr>
          in ebind (append_node capability_node s) (\<lambda>s1.
               for_each functions (add_function capability_id)
                 (append_link (JStr subcomp_id) capability_id HasCapability s1))
      | _ \<Rightarrow> Inr s)"

subsection \<open>Subcomponents, components and the root\<close>

text \<open>The capabilities of a subcomponent: the list itself, or what the field
  \<^verbatim>\<open>items\<close> of a dictionary holds, else the empty list.\<close>

definition capabilities_of :: "json \<Rightarrow> error + json" where
  "capabilities_of subcomp =
     ebind (py_in ''capabilities'' subcomp) (\<lambda>present.
       if present then
         ebind (py_getitem subcomp ''capabilities'') (\<lambda>c.
           case c of
             JArr xs \<Rightarrow> Inr c
           | JObj ckvs \<Rightarrow>
               if ''items'' \<in> set (map fst ckvs) then py_getitem c ''items'' else Inr (JArr [])
           | _ \<Rightarrow> Inr (JArr []))
       else Inr (JArr []))"

text \<open>The body of \<^verbatim>\<open>for subcomp_id, subcomp in component_subcomponents.items()\<close>.\<close>

definition add_subcomponent :: "string \<Rightarrow> string \<times> json \<Rightarrow> bstate \<Rightarrow> error + bstate" where
  "add_subcomponent component_id p s =
     (case p of (subcomp_id, subcomp) \<Rightarrow>
        ebind (capabilities_of subcomp) (\<lambda>capabilities.
        ebind (py_get subcomp ''name'' (JStr subcomp_id)) (\<lambda>subcomp_name.
        ebind (py_get subcomp ''description'' (JStr '''')) (\<lambda>subcomp_description.
          let has_children' = py_bool capabilities;
              subcomp_node = \<lparr>nid = JStr subcomp_id,
                 name = subcomp_name,
                 ntype = Subcomponent,
                 description = subcomp_description,
                 parent = Some (JStr component_id), level = 2,
                 expandable = has_children', has_children = has_children'\<rparr>
          in ebind (append_node subcomp_node s) (\<lambda>s1.
               for_each capabilities (add_capability subcomp_id)
                 (append_link (JStr component_id) (JStr subcomp_id) Contains s1))))))"

text \<open>The dictionary comprehension that selects the subcomponents whose \<^verbatim>\<open>parent\<close> is
  the component.\<close>

fun component_subcomponents_of ::
  "string \<Rightarrow> (string \<times> json) list \<Rightarrow> error + (string \<times> json) list" where
  "component_subcomponents_of component_id [] = Inr []"
| "component_subcomponents_of component_id ((s_id, s) # rest) =
     (case py_in ''parent'' s of
        Inl e \<Rightarrow> Inl e
      | Inr present \<Rightarrow>
          (case (if present
                 then (case py_getitem s ''parent'' of
                         Inl e \<Rightarrow> Inl e
                       | Inr v \<Rightarrow> Inr (v = JStr component_id))
                 else Inr False) of
             Inl e \<Rightarrow> Inl e
           | Inr keep \<Rightarrow>
               (case component_subcomponents_of component_id rest of
                  Inl e \<Rightarrow> Inl e
                | Inr selected \<Rightarrow> Inr (if keep then (s_id, s) # selected else selected))))"

text \<open>The body of \<^verbatim>\<open>for component_id, component in components.items()\<close>.\<close>

definition add_component ::
  "json \<Rightarrow> (string \<times> json) list \<Rightarrow> string \<times> json \<Rightarrow> bstate \<Rightarrow> error + bstate" where
  "add_component root_id subcomponents p s =
     (case p of (component_id, component) \<Rightarrow>
        ebind (component_subcomponents_of component_id subcomponents) (\<lambda>component_subcomponents.
        ebind (py_getitem component ''name'') (\<lambda>component_name.
        ebind (py_get component ''description'' (JStr '''')) (\<lambda>component_description.
          let has_children' = (component_subcomponents \<noteq> []);
              component_node = \<lparr>nid = JStr component_id,
                 name = component_name,
                 ntype = Component,
                 description = component_description,
                 parent = Some root_id, level = 1,
                 expandable = has_children', has_children = has_children'\<rparr>
          in ebind (append_node component_node s) (\<lambda>s1.
               foldM (add_subcomponent component_id) component_subcomponents
                 (append_link root_id (JStr component_id) Contains s1))))))"

text \<open>\<^verbatim>\<open>build_graph_data\<close>, as a function of the three results of the document store.\<close>

definition build_graph_data ::
  "json \<Rightarrow> (string \<times> json) list \<Rightarrow> (string \<times> json) list \<Rightarrow> error + graph" where
  "build_graph_data root_data components subcomponents =
     ebind (py_getitem root_data ''id'') (\<lambda>root_id.
     ebind (py_getitem root_data ''name'') (\<lambda>root_name.
     ebind (py_getitem root_data ''description'') (\<lambda>root_description.
       let root_node = \<lparr>nid = root_id,
              name = root_name,
              ntype = ComponentGroup,
              description = root_description,
              parent = None, level = 0,
              expandable = True, has_children = (components \<noteq> [])\<rparr>
       in ebind (append_node root_node \<lparr>nodes = [], links = [], node_map = Map.empty\<rparr>) (\<lambda>s0.
          ebind (foldM (add_component root_id subcomponents) components s0) (\<lambda>s.
            Inr \<lparr>g_nodes = nodes s, g_links = links s\<rparr>)))))"

section \<open>The node resolver (node\_details\_helper.py)\<close>

text \<open>A search loop whose body returns from the function on a match: the first match
  or the first exception ends it.\<close>

fun find_first :: "('a \<Rightarrow> error + json option) \<Rightarrow> 'a list \<Rightarrow> error + json option" where
  "find_first f [] = Inr None"
| "find_first f (x # xs) =
     (case f x of
        Inl e \<Rightarrow> Inl e
      | Inr (Some r) \<Rightarrow> Inr (Some r)
      | Inr None \<Rightarrow> find_first f xs)"

definition search_each :: "json \<Rightarrow> (json \<Rightarrow> error + json option) \<Rightarrow> error + json option" where
  "search_each v f = ebind (py_iter v) (find_first f)"

text \<open>\<^verbatim>\<open>x.get('id') == node_id\<close> for a dictionary \<open>x\<close> and the string \<open>node_id\<close>.\<close>

definition id_is :: "(string \<times> json) list \<Rightarrow> string \<Rightarrow> bool" where
  "id_is kvs node_id = (dict_get kvs ''id'' JNull = JStr node_id)"

definition find_in_io :: "string \<Rightarrow> json \<Rightarrow> error + json option" where
  "find_in_io node_id io_item =
     (case io_item of
        JObj kvs \<Rightarrow> Inr (if id_is kvs node_id then Some io_item else None)
      | _ \<Rightarrow> Inr None)"

definition find_in_application :: "string \<Rightarrow> json \<Rightarrow> error + json option" where
  "find_in_application node_id app =
     (case app of
        JObj kvs \<Rightarrow>
          if id_is kvs node_id then Inr (Some app)
          else
            ebind (search_each (dict_get kvs ''inputs'' (JArr [])) (find_in_io node_id)) (\<lambda>r.
              case r of
                Some io_item \<Rightarrow> Inr (Some io_item)
              | None \<Rightarrow> search_each (dict_get kvs ''outputs'' (JArr [])) (find_in_io node_id))
      | _ \<Rightarrow> Inr None)"

definition find_in_technique :: "string \<Rightarrow> json \<Rightarrow> error + json option" where
  "find_in_technique node_id technique =
     (case technique of
        JObj kvs \<Rightarrow>
          if id_is kvs node_id then Inr (Some technique)
          else search_each (dict_get kvs ''applications'' (JArr [])) (find_in_application node_id)
      | _ \<Rightarrow> Inr None)"

definition find_in_integration :: "string \<Rightarrow> json \<Rightarrow> error + json option" where
  "find_in_integration node_id integration =
     (case integration of
        JObj kvs \<Rightarrow>
          if kvs = [] then Inr None
          else if id_is kvs node_id then Inr (Some integration)
          else search_each (dict_get kvs ''techniques'' (JArr [])) (find_in_technique node_id)
      | _ \<Rightarrow> Inr None)"

definition find_in_specification :: "string \<Rightarrow> json \<Rightarrow> error + json option" where
  "find_in_specification node_id spec =
     (case spec of
        JObj kvs \<Rightarrow>
          if id_is kvs node_id then Inr (Some spec)
          else find_in_integration node_id (dict_get kvs ''integration'' JNull)
      | _ \<Rightarrow> Inr None)"

definition find_in_function :: "string \<Rightarrow> json \<Rightarrow> error + json option" where
  "find_in_function node_id function =
     (case function of
        JObj kvs \<Rightarrow>
          if id_is kvs node_id then Inr (Some function)
          else search_each (dict_get kvs ''specifications'' (JArr []))
                 (find_in_specification node_id)
      | _ \<Rightarrow> Inr None)"

definition find_in_capability :: "string \<Rightarrow> json \<Rightarrow> error + json option" where
  "find_in_capability node_id capability =
     (case capability of
        JObj kvs \<Rightarrow>
          if id_is kvs node_id then Inr (Some capability)
          else search_each (dict_get kvs ''functions'' (JArr [])) (find_in_function node_id)
      | _ \<Rightarrow> Inr None)"

text \<open>The body of \<^verbatim>\<open>for subcomp_id, subcomp in subcomponents.items()\<close>; \<open>None\<close> is
  \<^verbatim>\<open>continue\<close> or the end of the body.\<close>

definition find_in_subcomponent :: "string \<Rightarrow> string \<times> json \<Rightarrow> error + json option" where
  "find_in_subcomponent node_id p =
     (case snd p of
        JObj kvs \<Rightarrow>
          if ''capabilities'' \<in> set (map fst kvs) then
            (let capabilities = dict_get kvs ''capabilities'' (JArr []);
                 capabilities = (case capabilities of
                                   JObj ckvs \<Rightarrow> dict_get ckvs ''items'' (JArr [])
                                 | _ \<Rightarrow> capabilities)
             in case capabilities of
                  JArr xs \<Rightarrow> find_first (find_in_capability node_id) xs
                | _ \<Rightarrow> Inr None)
          else Inr None
      | _ \<Rightarrow> Inr None)"

definition find_nested_node :: "string \<Rightarrow> (string \<times> json) list \<Rightarrow> error + json option" where
  "find_nested_node node_id subcomponents =
     find_first (find_in_subcomponent node_id) subcomponents"

text \<open>\<^verbatim>\<open>str(type(x))\<close>\<close>

fun py_type :: "json \<Rightarrow> string" where
  "py_type JNull = ''<class 'NoneType'>''"
| "py_type (JBool b) = ''<class 'bool'>''"
| "py_type (JNum i) = ''<class 'int'>''"
| "py_type (JStr s) = ''<class 'str'>''"
| "py_type (JArr xs) = ''<class 'list'>''"
| "py_type (JObj kvs) = ''<class 'dict'>''"

definition error_details :: "string \<Rightarrow> string \<Rightarrow> string \<Rightarrow> string \<Rightarrow> string \<Rightarrow> json" where
  "error_details error_msg node_id nm descr tp =
     JObj [(''error'', JStr error_msg), (''id'', JStr node_id), (''name'', JStr nm),
           (''description'', JStr descr), (''type'', JStr tp)]"

text \<open>\<^verbatim>\<open>get_node_details\<close>, as a function of the three results of the document store;
  the result is the returned pair of a document and a status code.\<close>

definition get_node_details ::
  "string \<Rightarrow> json \<Rightarrow> (string \<times> json) list \<Rightarrow> (string \<times> json) list \<Rightarrow> error + json \<times> nat" where
  "get_node_details node_id root_data components subcomponents =
     (if \<not> py_bool root_data then
        Inr (error_details ''Could not load root data'' node_id ''Error Loading Node''
               ''Could not load root data'' ''error'', 500)
      else
        ebind (if node_id = ''ai-alignment'' then Inr True
               else ebind (py_getitem root_data ''id'') (\<lambda>root_id. Inr (JStr node_id = root_id)))
          (\<lambda>is_root.
            if is_root then Inr (root_data, 200)
            else
              (case map_of components node_id of
                 Some component \<Rightarrow> Inr (component, 200)
               | None \<Rightarrow>
                   (case map_of subcomponents node_id of
                      Some subcomp_data \<Rightarrow>
                        (case subcomp_data of
                           JObj kvs \<Rightarrow> Inr (subcomp_data, 200)
                         | _ \<Rightarrow>
                             Inr (error_details
                                    (''Error processing subcomponent data: ''
                                       @ ''Invalid subcomponent data type: ''
                                       @ py_type subcomp_data)
                                    node_id ''Error Processing Node''
                                    ''Could not process subcomponent data'' ''error'', 500))
                    | None \<Rightarrow>
                        ebind (find_nested_node node_id subcomponents) (\<lambda>nested_node.
                          case nested_node of
                            Some found \<Rightarrow>
                              if py_bool found then Inr (found, 200)
                              else Inr (error_details (''Node not found: '' @ node_id) node_id
                                          ''Unknown Node'' ''Node details not found''
                                          ''unknown'', 404)
                          | None \<Rightarrow>
                              Inr (error_details (''Node not found: '' @ node_id) node_id
                                     ''Unknown Node'' ''Node details not found''
                                     ''unknown'', 404))))))"

section \<open>The document store\<close>

text \<open>
  The file system and \<^verbatim>\<open>json.loads\<close> are outside the repository. A file is what
  \<^verbatim>\<open>f.read()\<close> gives under each encoding: a text, a list of code points, or \<open>None\<close> when
  opening or decoding raises. \<open>json_loads\<close> is \<open>None\<close> where \<^verbatim>\<open>json.loads\<close> raises.
\<close>

type_synonym unicode = "nat list"
type_synonym file_content = "string \<Rightarrow> unicode option"

text \<open>\<^verbatim>\<open>c.isspace()\<close>, the characters that \<^verbatim>\<open>str.strip()\<close> removes.\<close>

definition is_space :: "nat \<Rightarrow> bool" where
  "is_space c =
     (c \<in> set [9, 10, 11, 12, 13, 28, 29, 30, 31, 32, 133, 160, 5760, 8232, 8233, 8239, 8287, 12288]
      \<or> (8192 \<le> c \<and> c \<le> 8202))"

definition strip :: "unicode \<Rightarrow> unicode" where
  "strip t = rev (dropWhile is_space (rev (dropWhile is_space t)))"

definition encodings :: "string list" where
  "encodings = [''utf-8-sig'', ''utf-8'', ''latin1'', ''cp1252'']"

text \<open>One round of \<^verbatim>\<open>for encoding in encodings\<close>: \<open>Some data\<close> is \<^verbatim>\<open>return data\<close>, \<open>None\<close>
  is \<^verbatim>\<open>continue\<close>. Code point 65279 is the byte-order mark, 123 and 91 are the opening
  brace and bracket.\<close>

definition try_encoding :: "(unicode \<Rightarrow> json option) \<Rightarrow> file_content \<Rightarrow> string \<Rightarrow> json option" where
  "try_encoding json_loads f encoding =
     (case f encoding of
        None \<Rightarrow> None
      | Some raw \<Rightarrow>
          let content = strip raw in
          if content = [] then None
          else
            let content = (if hd content = 65279 then tl content else content);
                content = strip content
            in if content = [] \<or> (hd content \<noteq> 123 \<and> hd content \<noteq> 91) then None
               else json_loads content)"

fun try_encodings :: "(unicode \<Rightarrow> json option) \<Rightarrow> file_content \<Rightarrow> string list \<Rightarrow> json option" where
  "try_encodings json_loads f [] = None"
| "try_encodings json_loads f (encoding # rest) =
     (case try_encoding json_loads f encoding of
        Some data \<Rightarrow> Some data
      | None \<Rightarrow> try_encodings json_loads f rest)"

text \<open>\<^verbatim>\<open>load_json_file\<close>: \<open>None\<close> for the path stands for a path that is not a file.\<close>

definition load_json_file :: "(unicode \<Rightarrow> json option) \<Rightarrow> file_content option \<Rightarrow> json option" where
  "load_json_file json_loads path =
     (case path of
        None \<Rightarrow> None
      | Some f \<Rightarrow> try_encodings json_loads f encodings)"

definition DEFAULT_ROOT_DATA :: json where
  "DEFAULT_ROOT_DATA = JObj
     [(''id'', JStr ''ai-alignment''),
      (''name'', JStr ''AI Alignment''),
      (''description'', JStr
         ''Methods to ensure AI systems remain aligned with human values and intentions.''),
      (''type'', JStr ''component_group''),
      (''components'', JArr
         [JObj [(''id'', JStr ''technical-safeguards''),
                (''name'', JStr ''Technical Safeguards''),
                (''description'', JStr
                   ''Engineering approaches to ensure AI systems behave as intended'')],
          JObj [(''id'', JStr ''value-learning''),
                (''name'', JStr ''Value Learning''),
                (''description'', JStr
                   ''Systems that enable AI to learn and internalize human values'')],
          JObj [(''id'', JStr ''interpretability-tools''),
                (''name'', JStr ''Interpretability Tools''),
                (''description'', JStr
                   ''Methods to understand AI reasoning and decision-making'')],
          JObj [(''id'', JStr ''oversight-mechanisms''),
                (''name'', JStr ''Oversight Mechanisms''),
                (''description'', JStr
                   ''Systems for monitoring and evaluating AI behavior'')]])]"

definition get_root_data :: "(unicode \<Rightarrow> json option) \<Rightarrow> file_content option \<Rightarrow> json" where
  "get_root_data json_loads root_json_file =
     (case load_json_file json_loads root_json_file of
        None \<Rightarrow> DEFAULT_ROOT_DATA
      | Some root_data \<Rightarrow> if \<not> py_bool root_data then DEFAULT_ROOT_DATA else root_data)"

text \<open>\<^verbatim>\<open>name.replace(".json", "")\<close>: every occurrence, left to right.\<close>

fun remove_json :: "string \<Rightarrow> string" where
  "remove_json [] = []"
| "remove_json (c # cs) =
     (if take 5 (c # cs) = ''.json'' then remove_json (drop 4 cs) else c # remove_json cs)"

text \<open>\<^verbatim>\<open>x[k] = v\<close> with a string key: only a dictionary takes it.\<close>

fun py_setitem :: "json \<Rightarrow> string \<Rightarrow> json \<Rightarrow> error + json" where
  "py_setitem (JObj kvs) k v = Inr (JObj (AList.update k v kvs))"
| "py_setitem _ k v = Inl TypeError"

text \<open>The body of \<^verbatim>\<open>for file_path in ...\<close> in \<^verbatim>\<open>get_subcomponents\<close>, the same in both
  modules; a file of the directory is its base name and its content.\<close>

definition load_subcomponent ::
  "(unicode \<Rightarrow> json option) \<Rightarrow> string \<times> file_content \<Rightarrow> (string \<times> json) list
     \<Rightarrow> error + (string \<times> json) list" where
  "load_subcomponent json_loads p subcomponents =
     (case load_json_file json_loads (Some (snd p)) of
        None \<Rightarrow> Inr subcomponents
      | Some data \<Rightarrow>
          if py_bool data then
            (let subcomponent_id = remove_json (fst p) in
             ebind (py_in ''id'' data) (\<lambda>present.
             ebind (if \<not> present then py_setitem data ''id'' (JStr subcomponent_id)
                    else Inr data) (\<lambda>data'.
               Inr (AList.update subcomponent_id data' subcomponents))))
          else Inr subcomponents)"

text \<open>\<^verbatim>\<open>get_subcomponents\<close> of node\_details\_helper.py; \<open>None\<close> for the directory stands
  for a path that is not a directory, else it is the list \<^verbatim>\<open>glob\<close> returns.\<close>

definition get_subcomponents_helper ::
  "(unicode \<Rightarrow> json option) \<Rightarrow> (string \<times> file_content) list option \<Rightarrow> error + (string \<times> json) list" where
  "get_subcomponents_helper json_loads subcomponents_dir =
     (case subcomponents_dir of
        None \<Rightarrow> Inr []
      | Some subcomponent_files \<Rightarrow> foldM (load_subcomponent json_loads) subcomponent_files [])"

text \<open>\<^verbatim>\<open>get_subcomponents\<close> of app.py: the files in batches of 10, and every exception
  caught around the whole function, which then returns the empty dictionary.\<close>

definition get_subcomponents_app ::
  "(unicode \<Rightarrow> json option) \<Rightarrow> (string \<times> file_content) list option \<Rightarrow> (string \<times> json) list" where
  "get_subcomponents_app json_loads subcomponents_dir =
     (case subcomponents_dir of
        None \<Rightarrow> []
      | Some subcomponent_files \<Rightarrow>
          (let batch_size = 10 in
           case foldM (\<lambda>i. foldM (load_subcomponent json_loads)
                              (take batch_size (drop i subcomponent_files)))
                  (map (\<lambda>j. j * batch_size)
                     [0 ..< (length subcomponent_files + batch_size - 1) div batch_size])
                  [] of
             Inl e \<Rightarrow> []
           | Inr subcomponents \<Rightarrow> subcomponents))"

section \<open>Predicates of the statements\<close>

subsection \<open>The invariant of the builder\<close>

text \<open>Properties of a node list, and the invariant of the builder's state that the loops
  keep: \<open>r\<close> is the root node and \<open>A\<close> a set of ids of nodes already built.\<close>

definition parents_ok :: "node list \<Rightarrow> bool" where
  "parents_ok ns \<longleftrightarrow> (\<forall>i<length ns. 0 < i \<longrightarrow> (\<exists>j<i. parent (ns ! i) = Some (nid (ns ! j))))"

definition covered :: "bstate \<Rightarrow> bool" where
  "covered s \<longleftrightarrow> (\<forall>n\<in>set (nodes s). \<exists>k. hash_key (nid n) = Inr k \<and> node_map s k \<noteq> None)"

definition flags_ok :: "node list \<Rightarrow> bool" where
  "flags_ok ns \<longleftrightarrow> (\<forall>n\<in>set (tl ns). has_children n = expandable n)"

definition outputs_fresh :: "node list \<Rightarrow> bool" where
  "outputs_fresh ns \<longleftrightarrow>
     (\<forall>j<length ns. ntype (ns ! j) = Output \<longrightarrow> (\<forall>i<j. hash_key (nid (ns ! i)) \<noteq> hash_key (nid (ns ! j))))"

definition builder_inv :: "node \<Rightarrow> json set \<Rightarrow> bstate \<Rightarrow> bool" where
  "builder_inv r A s \<longleftrightarrow>
     nodes s \<noteq> [] \<and> hd (nodes s) = r \<and> A \<subseteq> nid ` set (nodes s) \<and> parents_ok (nodes s) \<and>
     covered s \<and> flags_ok (nodes s) \<and> outputs_fresh (nodes s)"

subsection \<open>Example documents\<close>

text \<open>A root, a component and a subcomponent with one fragment at every level; \<^verbatim>\<open>app1\<close>
  has the output \<^verbatim>\<open>o1\<close> and an input with the nested outputs \<^verbatim>\<open>o1\<close> and \<^verbatim>\<open>o2\<close>, and \<^verbatim>\<open>app2\<close>
  has the output \<^verbatim>\<open>o1\<close> again. \<open>example_graph\<close> is the graph built from them.\<close>

definition example_root :: json where
  "example_root = JObj [(''id'', JStr ''ai-alignment''), (''name'', JStr ''AI Alignment''),
     (''description'', JStr ''root'')]"

definition example_components :: "(string \<times> json) list" where
  "example_components = [(''c1'', JObj [(''name'', JStr ''C1'')])]"

definition example_app1 :: json where
  "example_app1 = JObj [(''id'', JStr ''app1''),
     (''outputs'', JArr [JObj [(''id'', JStr ''o1'')]]),
     (''inputs'', JArr [JObj [(''id'', JStr ''in1''),
        (''outputs'', JArr [JObj [(''id'', JStr ''o1'')], JObj [(''id'', JStr ''o2'')]])]])]"

definition example_app2 :: json where
  "example_app2 = JObj [(''id'', JStr ''app2''), (''outputs'', JArr [JObj [(''id'', JStr ''o1'')]])]"

definition example_capability :: json where
  "example_capability =
     JObj [(''id'', JStr ''cap''), (''functions'', JArr
       [JObj [(''id'', JStr ''fn''), (''specifications'', JArr
         [JObj [(''id'', JStr ''sp''), (''integration'',
           JObj [(''id'', JStr ''int''), (''techniques'', JArr
             [JObj [(''id'', JStr ''tech''), (''applications'', JArr
               [example_app1, example_app2])]])])]])]])]"

definition example_subcomponents :: "(string \<times> json) list" where
  "example_subcomponents = [(''s1'', JObj [(''id'', JStr ''s1''), (''parent'', JStr ''c1''),
     (''capabilities'', JArr [example_capability])])]"

definition example_node :: "string \<Rightarrow> string \<Rightarrow> node_type \<Rightarrow> string \<Rightarrow> nat \<Rightarrow> bool \<Rightarrow> node" where
  "example_node i nm t p l e = \<lparr>nid = JStr i, name = JStr nm, ntype = t, description = JStr '''',
     parent = Some (JStr p), level = l, expandable = e, has_children = e\<rparr>"

definition root_only_graph :: graph where
  "root_only_graph = \<lparr>g_nodes =
     [\<lparr>nid = JStr ''ai-alignment'', name = JStr ''AI Alignment'', ntype = ComponentGroup,
        description = JStr ''root'', parent = None, level = 0, expandable = True,
        has_children = False\<rparr>],
    g_links = []\<rparr>"

definition example_graph :: graph where
  "example_graph = \<lparr>g_nodes =
     [\<lparr>nid = JStr ''ai-alignment'', name = JStr ''AI Alignment'', ntype = ComponentGroup,
        description = JStr ''root'', parent = None, level = 0, expandable = True,
        has_children = True\<rparr>,
      example_node ''c1'' ''C1'' Component ''ai-alignment'' 1 True,
      example_node ''s1'' ''s1'' Subcomponent ''c1'' 2 True,
      example_node ''cap'' ''Capability'' Capability ''s1'' 3 True,
      example_node ''fn'' ''Function'' Function ''cap'' 4 True,
      example_node ''sp'' ''Specification'' Specification ''fn'' 5 True,
      example_node ''int'' ''Integration'' Integration ''sp'' 6 True,
      example_node ''tech'' ''Technique'' Technique ''int'' 7 True,
      example_node ''app1'' ''Application'' Application ''tech'' 8 True,
      example_node ''in1'' ''Input'' Input ''app1'' 9 False,
      example_node ''o1'' ''Output 1'' Output ''app1'' 9 False,
      example_node ''o2'' ''Output 2'' Output ''app1'' 9 False,
      example_node ''app2'' ''Application'' Application ''tech'' 8 True],
    g_links =
     [\<lparr>source = JStr ''ai-alignment'', target = JStr ''c1'', ltype = Contains\<rparr>,
      \<lparr>source = JStr ''c1'', target = JStr ''s1'', ltype = Contains\<rparr>,
      \<lparr>source = JStr ''s1'', target = JStr ''cap'', ltype = HasCapability\<rparr>,
      \<lparr>source = JStr ''cap'', target = JStr ''fn'', ltype = HasFunction\<rparr>,
      \<lparr>source = JStr ''fn'', target = JStr ''sp'', ltype = HasSpecification\<rparr>,
      \<lparr>source = JStr ''sp'', target = JStr ''int'', ltype = HasIntegration\<rparr>,
      \<lparr>source = JStr ''int'', target = JStr ''tech'', ltype = HasTechnique\<rparr>,
      \<lparr>source = JStr ''tech'', target = JStr ''app1'', ltype = HasApplication\<rparr>,
      \<lparr>source = JStr ''app1'', target = JStr ''in1'', ltype = HasInput\<rparr>,
      \<lparr>source = JStr ''app1'', target = JStr ''o1'', ltype = HasOutput\<rparr>,
      \<lparr>source = JStr ''app1'', target = JStr ''o2'', ltype = HasOutput\<rparr>,
      \<lparr>source = JStr ''tech'', target = JStr ''app2'', ltype = HasApplication\<rparr>]\<rparr>"

text \<open>A state of the builder in which the output \<^verbatim>\<open>o1\<close> is already a node.\<close>

definition example_state :: bstate where
  "example_state = \<lparr>nodes = [example_node ''o1'' ''Output 1'' Output ''app1'' 9 False],
     links = [],
     node_map = [KStr ''o1'' \<mapsto> example_node ''o1'' ''Output 1'' Output ''app1'' 9 False]\<rparr>"

text \<open>A component and a subcomponent with the same file name \<^verbatim>\<open>x\<close>.\<close>

definition shadow_components :: "(string \<times> json) list" where
  "shadow_components = [(''x'', JObj [(''name'', JStr ''component x'')])]"

definition shadow_subcomponents :: "(string \<times> json) list" where
  "shadow_subcomponents = [(''x'', JObj [(''id'', JStr ''x''), (''name'', JStr ''subcomponent x'')])]"

text \<open>Two subcomponents; a capability of the first has the id of the second.\<close>

definition twin_subcomponents :: "(string \<times> json) list" where
  "twin_subcomponents =
     [(''s1'', JObj [(''id'', JStr ''s1''), (''capabilities'', JArr
         [JObj [(''id'', JStr ''s2''), (''name'', JStr ''a capability of s1'')]])]),
      (''s2'', JObj [(''id'', JStr ''s2''), (''name'', JStr ''subcomponent s2'')])]"

text \<open>A file without content, and a \<^verbatim>\<open>json.loads\<close> that raises on every content.\<close>

definition empty_file :: file_content where
  "empty_file = (\<lambda>encoding. Some [])"

definition reject_all :: "unicode \<Rightarrow> json option" where
  "reject_all = (\<lambda>content. None)"

text \<open>Two subcomponent files: a.json holds \<^verbatim>\<open>{"name":"A"}\<close> and b.json holds \<^verbatim>\<open>[1]\<close>, given
  by their code points; \<open>parse_two\<close> is \<^verbatim>\<open>json.loads\<close> on these two contents.\<close>

definition object_text :: unicode where
  "object_text = [123, 34, 110, 97, 109, 101, 34, 58, 34, 65, 34, 125]"

definition array_text :: unicode where
  "array_text = [91, 49, 93]"

definition two_files :: "(string \<times> file_content) list" where
  "two_files = [(''a.json'', \<lambda>encoding. Some object_text), (''b.json'', \<lambda>encoding. Some array_text)]"

definition parse_two :: "unicode \<Rightarrow> json option" where
  "parse_two content =
     (if content = object_text then Some (JObj [(''name'', JStr ''A'')])
      else if content = array_text then Some (JArr [JNum 1])
      else None)"

subsection \<open>The deduplication rule of the specification\<close>

text \<open>
  The specification's rule for the outputs of an application, in its own words: keep the
  first occurrence of each non-empty id; entries with no id are always kept. Entries that
  are not objects are skipped. Two ids are the same when they are the same dictionary
  key; an id that cannot be a key counts as no id (the code raises on it). The rule is
  compared below with the loop of the code, \<open>unique_outputs\<close>.
\<close>

definition fragment_key :: "json \<Rightarrow> pykey option" where
  "fragment_key x =
     (case x of
        JObj kvs \<Rightarrow>
          (if py_bool (dict_get kvs ''id'' JNull)
           then (case hash_key (dict_get kvs ''id'' JNull) of Inr k \<Rightarrow> Some k | Inl e \<Rightarrow> None)
           else None)
      | _ \<Rightarrow> None)"

fun dedup_by_id :: "json list \<Rightarrow> json list" where
  "dedup_by_id [] = []"
| "dedup_by_id (x # xs) =
     (case x of
        JObj kvs \<Rightarrow>
          (case fragment_key x of
             Some k \<Rightarrow> x # dedup_by_id (filter (\<lambda>y. fragment_key y \<noteq> Some k) xs)
           | None \<Rightarrow> x # dedup_by_id xs)
      | _ \<Rightarrow> dedup_by_id xs)"

subsection \<open>The nodes that an application gives rise to\<close>

text \<open>
  The nodes of an application, written as functions of the fragments: the application
  node, for \<open>n\<close> nodes built before it and its deduplicated outputs; the input nodes, one
  for every input that is an object, the node count running from \<open>n\<close>; and the output
  nodes, one for every output that is an object and whose id is not yet among the keys
  \<open>K\<close> of the nodes built, each output node adding its own key. \<open>node_keys\<close> are the
  dictionary keys of the ids of a list of nodes.
\<close>

definition node_keys :: "node list \<Rightarrow> pykey set" where
  "node_keys ns = set (concat (map (\<lambda>n. case hash_key (nid n) of Inr k \<Rightarrow> [k] | Inl e \<Rightarrow> []) ns))"

definition application_node_of ::
  "json \<Rightarrow> (string \<times> json) list \<Rightarrow> nat \<Rightarrow> json list \<Rightarrow> node" where
  "application_node_of technique_id kvs n outputs =
     \<lparr>nid = dict_get kvs ''id'' (JStr (py_str technique_id @ ''-app-'' @ show_nat n)),
      name = dict_get kvs ''name'' (JStr ''Application''),
      ntype = Application,
      description = dict_get kvs ''description'' (JStr ''''),
      parent = Some technique_id, level = 8,
      expandable = (py_bool (dict_get kvs ''inputs'' (JArr [])) \<or> outputs \<noteq> []),
      has_children = (py_bool (dict_get kvs ''inputs'' (JArr [])) \<or> outputs \<noteq> [])\<rparr>"

definition input_node_of :: "json \<Rightarrow> nat \<Rightarrow> (string \<times> json) list \<Rightarrow> node" where
  "input_node_of app_id n kvs =
     \<lparr>nid = dict_get kvs ''id'' (JStr (py_str app_id @ ''-input-'' @ show_nat n)),
      name = dict_get kvs ''name'' (JStr ''Input''),
      ntype = Input,
      description = dict_get kvs ''description'' (JStr ''''),
      parent = Some app_id, level = 9, expandable = False, has_children = False\<rparr>"

fun input_nodes_of :: "json \<Rightarrow> nat \<Rightarrow> json list \<Rightarrow> node list" where
  "input_nodes_of app_id n [] = []"
| "input_nodes_of app_id n (x # xs) =
     (case x of
        JObj kvs \<Rightarrow> input_node_of app_id n kvs # input_nodes_of app_id (Suc n) xs
      | _ \<Rightarrow> input_nodes_of app_id n xs)"

fun emit_outputs :: "json \<Rightarrow> (nat \<times> json) list \<Rightarrow> pykey set \<Rightarrow> node list" where
  "emit_outputs app_id [] K = []"
| "emit_outputs app_id (p # ps) K =
     (case snd p of
        JObj kvs \<Rightarrow>
          (case hash_key (output_id_of app_id (fst p) kvs) of
             Inr k \<Rightarrow>
               if k \<in> K then emit_outputs app_id ps K
               else output_node_of app_id (fst p) kvs # emit_outputs app_id ps (insert k K)
           | Inl e \<Rightarrow> emit_outputs app_id ps K)
      | _ \<Rightarrow> emit_outputs app_id ps K)"

subsection \<open>Documents of the expected shape\<close>

text \<open>
  The shape of the documents on which the builder raises no exception: every id is
  hashable (not a list or a dictionary), every child field that is present is an array,
  the root has an id, a name and a description, every component has a name, and root,
  components and subcomponents are objects. An entry of an array that is not an object
  is of the expected shape: the builder skips it.
\<close>

definition hashable :: "json \<Rightarrow> bool" where
  "hashable v = (case hash_key v of Inr k \<Rightarrow> True | Inl e \<Rightarrow> False)"

definition id_ok :: "(string \<times> json) list \<Rightarrow> bool" where
  "id_ok kvs = (case map_of kvs ''id'' of None \<Rightarrow> True | Some v \<Rightarrow> hashable v)"

definition array_of :: "(json \<Rightarrow> bool) \<Rightarrow> json option \<Rightarrow> bool" where
  "array_of P field =
     (case field of None \<Rightarrow> True | Some (JArr xs) \<Rightarrow> list_all P xs | Some _ \<Rightarrow> False)"

definition object_with :: "((string \<times> json) list \<Rightarrow> bool) \<Rightarrow> json \<Rightarrow> bool" where
  "object_with P x = (case x of JObj kvs \<Rightarrow> P kvs | _ \<Rightarrow> True)"

definition ok_output :: "json \<Rightarrow> bool" where
  "ok_output x = object_with id_ok x"

definition ok_input :: "json \<Rightarrow> bool" where
  "ok_input x = object_with (\<lambda>kvs. id_ok kvs \<and>
     (case map_of kvs ''outputs'' of
        Some (JArr xs) \<Rightarrow> list_all ok_output xs
      | Some (JObj d) \<Rightarrow> id_ok d
      | _ \<Rightarrow> True)) x"

definition ok_application :: "json \<Rightarrow> bool" where
  "ok_application x = object_with (\<lambda>kvs. id_ok kvs \<and>
     array_of ok_input (map_of kvs ''inputs'') \<and> array_of ok_output (map_of kvs ''outputs'')) x"

definition ok_technique :: "json \<Rightarrow> bool" where
  "ok_technique x = object_with (\<lambda>kvs. id_ok kvs \<and>
     array_of ok_application (map_of kvs ''applications'')) x"

definition ok_integration :: "json \<Rightarrow> bool" where
  "ok_integration x = object_with (\<lambda>kvs. id_ok kvs \<and>
     array_of ok_technique (map_of kvs ''techniques'')) x"

definition ok_specification :: "json \<Rightarrow> bool" where
  "ok_specification x = object_with (\<lambda>kvs. id_ok kvs \<and>
     (case map_of kvs ''integration'' of None \<Rightarrow> True | Some i \<Rightarrow> ok_integration i)) x"

definition ok_function :: "json \<Rightarrow> bool" where
  "ok_function x = object_with (\<lambda>kvs. id_ok kvs \<and>
     array_of ok_specification (map_of kvs ''specifications'')) x"

definition ok_capability :: "json \<Rightarrow> bool" where
  "ok_capability x = object_with (\<lambda>kvs. id_ok kvs \<and>
     array_of ok_function (map_of kvs ''functions'')) x"

definition ok_subcomponent :: "json \<Rightarrow> bool" where
  "ok_subcomponent x =
     (case x of
        JObj kvs \<Rightarrow>
          (case map_of kvs ''capabilities'' of
             Some (JArr xs) \<Rightarrow> list_all ok_capability xs
           | Some (JObj ckvs) \<Rightarrow> array_of ok_capability (map_of ckvs ''items'')
           | _ \<Rightarrow> True)
      | _ \<Rightarrow> False)"

definition ok_component :: "json \<Rightarrow> bool" where
  "ok_component x = (case x of JObj kvs \<Rightarrow> map_of kvs ''name'' \<noteq> None | _ \<Rightarrow> False)"

definition ok_root :: "json \<Rightarrow> bool" where
  "ok_root x =
     (case x of
        JObj kvs \<Rightarrow>
          (case map_of kvs ''id'' of Some v \<Rightarrow> hashable v | None \<Rightarrow> False) \<and>
          map_of kvs ''name'' \<noteq> None \<and> map_of kvs ''description'' \<noteq> None
      | _ \<Rightarrow> False)"

subsection \<open>The example of the specification\<close>

text \<open>The application of the specification's example: its own outputs hold \<^verbatim>\<open>o1\<close>, and its
  one input holds the nested outputs \<^verbatim>\<open>o1\<close> and \<^verbatim>\<open>o2\<close>.\<close>

definition claim_outputs :: "json list" where
  "claim_outputs = [JObj [(''id'', JStr ''o1'')]]"

definition claim_inputs :: "json list" where
  "claim_inputs = [JObj [(''outputs'', JArr [JObj [(''id'', JStr ''o1'')], JObj [(''id'', JStr ''o2'')]])]]"

definition claim_app :: json where
  "claim_app = JObj [(''outputs'', JArr claim_outputs), (''inputs'', JArr claim_inputs)]"

text \<open>An application with two equal outputs that have no id.\<close>

definition unnamed_app :: json where
  "unnamed_app = JObj [(''id'', JStr ''app''),
     (''outputs'', JArr [JObj [(''name'', JStr ''out'')], JObj [(''name'', JStr ''out'')]])]"

text \<open>The state of the builder before any node.\<close>

definition empty_state :: bstate where
  "empty_state = \<lparr>nodes = [], links = [], node_map = Map.empty\<rparr>"

section \<open>The loops of the builder keep the invariant\<close>

lemma foldM_preserves:
  assumes "\<And>x s s'. Q s \<Longrightarrow> f x s = Inr s' \<Longrightarrow> Q s'"
    and "Q s" and "foldM f xs s = Inr s'"
  shows "Q s'"
  using assms(2,3)
proof (induction xs arbitrary: s)
  case Nil
  then show ?case by simp
next
  case (Cons x xs)
  then show ?case by (auto split: sum.splits dest: assms(1))
qed

lemma for_each_preserves:
  assumes "\<And>x s s'. Q s \<Longrightarrow> f x s = Inr s' \<Longrightarrow> Q s'"
    and "Q s" and "for_each v f s = Inr s'"
  shows "Q s'"
proof -
  from assms(3) obtain xs where "foldM f xs s = Inr s'"
    by (auto simp: for_each_def ebind_def split: sum.splits)
  with assms(1,2) show ?thesis by (rule foldM_preserves)
qed

lemma parents_ok_snoc:
  assumes "parents_ok ns" and "parent n = Some p" and "p \<in> nid ` set ns"
  shows "parents_ok (ns @ [n])"
  unfolding parents_ok_def
proof (intro allI impI)
  fix i assume i: "i < length (ns @ [n])" and pos: "0 < i"
  show "\<exists>j<i. parent ((ns @ [n]) ! i) = Some (nid ((ns @ [n]) ! j))"
  proof (cases "i < length ns")
    case True
    with assms(1) pos obtain j where "j < i" "parent (ns ! i) = Some (nid (ns ! j))"
      by (auto simp: parents_ok_def)
    with True show ?thesis by (auto simp: nth_append intro!: exI [of _ j])
  next
    case False
    with i have eq: "i = length ns" by simp
    from assms(3) obtain j where "j < length ns" "nid (ns ! j) = p"
      by (auto simp: in_set_conv_nth)
    with eq assms(2) show ?thesis by (auto simp: nth_append intro!: exI [of _ j])
  qed
qed

lemma outputs_fresh_snoc:
  assumes "outputs_fresh ns"
    and "ntype n = Output \<longrightarrow> (\<forall>m\<in>set ns. hash_key (nid m) \<noteq> hash_key (nid n))"
  shows "outputs_fresh (ns @ [n])"
  unfolding outputs_fresh_def
proof (intro allI impI)
  fix j i assume j: "j < length (ns @ [n])" and out: "ntype ((ns @ [n]) ! j) = Output" and i: "i < j"
  show "hash_key (nid ((ns @ [n]) ! i)) \<noteq> hash_key (nid ((ns @ [n]) ! j))"
  proof (cases "j < length ns")
    case True
    with assms(1) out i show ?thesis by (auto simp: outputs_fresh_def nth_append)
  next
    case False
    with j have eq: "j = length ns" by simp
    with i have "ns ! i \<in> set ns" by simp
    with assms(2) out eq i show ?thesis by (auto simp: nth_append)
  qed
qed

lemma append_node_inv:
  assumes "builder_inv r A s" and "append_node n s = Inr s'"
    and "parent n = Some p" and "p \<in> A" and "has_children n = expandable n"
    and "ntype n = Output \<longrightarrow> (\<forall>k. hash_key (nid n) = Inr k \<longrightarrow> node_map s k = None)"
  shows "builder_inv r (insert (nid n) A) s'"
proof -
  from assms(2) obtain k where k: "hash_key (nid n) = Inr k"
    and s': "s' = s\<lparr>nodes := nodes s @ [n], node_map := (node_map s)(k \<mapsto> n)\<rparr>"
    by (auto simp: append_node_def ebind_def split: sum.splits)
  from assms(1) have ne: "nodes s \<noteq> []" and hd: "hd (nodes s) = r" and sub: "A \<subseteq> nid ` set (nodes s)"
    and po: "parents_ok (nodes s)" and cov: "covered s" and fl: "flags_ok (nodes s)"
    and fr: "outputs_fresh (nodes s)"
    by (simp_all add: builder_inv_def)
  have 1: "parents_ok (nodes s')"
    using po assms(3,4) sub by (auto simp: s' intro: parents_ok_snoc)
  have 2: "covered s'"
    unfolding covered_def
  proof
    fix m assume "m \<in> set (nodes s')"
    then consider "m \<in> set (nodes s)" | "m = n" by (auto simp: s')
    then show "\<exists>k. hash_key (nid m) = Inr k \<and> node_map s' k \<noteq> None"
    proof cases
      case 1
      with cov obtain k' where "hash_key (nid m) = Inr k'" "node_map s k' \<noteq> None"
        by (auto simp: covered_def)
      then show ?thesis by (auto simp: s')
    next
      case 2
      with k show ?thesis by (auto simp: s')
    qed
  qed
  have 3: "flags_ok (nodes s')"
    using fl ne assms(5) by (auto simp: flags_ok_def s')
  have "ntype n = Output \<longrightarrow> (\<forall>m\<in>set (nodes s). hash_key (nid m) \<noteq> hash_key (nid n))"
    using cov k assms(6) by (fastforce simp: covered_def)
  with fr have 4: "outputs_fresh (nodes s')"
    by (simp add: s' outputs_fresh_snoc)
  from ne hd sub 1 2 3 4 show ?thesis
    by (auto simp: builder_inv_def s')
qed

lemma builder_inv_mono: "builder_inv r A s \<Longrightarrow> B \<subseteq> A \<Longrightarrow> builder_inv r B s"
  by (auto simp: builder_inv_def)

lemma builder_inv_append_link [simp]: "builder_inv r A (append_link a b t s) = builder_inv r A s"
  by (simp add: builder_inv_def append_link_def covered_def)

lemma ebind_InrE:
  assumes "ebind m f = Inr y"
  obtains x where "m = Inr x" and "f x = Inr y"
  using assms by (auto simp: ebind_def split: sum.splits)

lemma builder_inv_insertD: "builder_inv r (insert x A) s \<Longrightarrow> builder_inv r A s"
  by (rule builder_inv_mono) auto

lemma emit_children:
  assumes "builder_inv r A s" and "pid \<in> A"
    and "ebind (append_node n s) (\<lambda>s1. body (append_link a b t s1)) = Inr s'"
    and "parent n = Some pid" and "has_children n = expandable n" and "ntype n \<noteq> Output"
    and "\<And>s1 s2. builder_inv r (insert (nid n) A) s1 \<Longrightarrow> body s1 = Inr s2 \<Longrightarrow> builder_inv r (insert (nid n) A) s2"
  shows "builder_inv r A s'"
proof -
  from assms(3) obtain s1 where s1: "append_node n s = Inr s1" and b: "body (append_link a b t s1) = Inr s'"
    by (rule ebind_InrE)
  from assms(1) s1 assms(4) assms(2) assms(5) assms(6) have "builder_inv r (insert (nid n) A) s1"
    by (auto intro: append_node_inv)
  then have "builder_inv r (insert (nid n) A) (append_link a b t s1)" by simp
  from assms(7) [OF this b] show ?thesis by (rule builder_inv_insertD)
qed

lemma emit_for_each:
  assumes "builder_inv r A s" and "pid \<in> A"
    and "ebind (append_node n s) (\<lambda>s1. for_each v f (append_link a b t s1)) = Inr s'"
    and "parent n = Some pid" and "has_children n = expandable n" and "ntype n \<noteq> Output"
    and "\<And>x s1 s2. builder_inv r (insert (nid n) A) s1 \<Longrightarrow> f x s1 = Inr s2 \<Longrightarrow> builder_inv r (insert (nid n) A) s2"
  shows "builder_inv r A s'"
  using assms(1-6)
proof (rule emit_children [where body = "for_each v f"])
  fix s1 s2 assume "builder_inv r (insert (nid n) A) s1" and "for_each v f s1 = Inr s2"
  with assms(7) show "builder_inv r (insert (nid n) A) s2" by (rule for_each_preserves)
qed

lemma emit_foldM:
  assumes "builder_inv r A s" and "pid \<in> A"
    and "ebind (append_node n s) (\<lambda>s1. foldM f xs (append_link a b t s1)) = Inr s'"
    and "parent n = Some pid" and "has_children n = expandable n" and "ntype n \<noteq> Output"
    and "\<And>x s1 s2. builder_inv r (insert (nid n) A) s1 \<Longrightarrow> f x s1 = Inr s2 \<Longrightarrow> builder_inv r (insert (nid n) A) s2"
  shows "builder_inv r A s'"
  using assms(1-6)
proof (rule emit_children [where body = "foldM f xs"])
  fix s1 s2 assume "builder_inv r (insert (nid n) A) s1" and "foldM f xs s1 = Inr s2"
  with assms(7) show "builder_inv r (insert (nid n) A) s2" by (rule foldM_preserves)
qed

lemma add_output_inv:
  assumes "builder_inv r A s" and "app_id \<in> A" and "add_output app_id p s = Inr s'"
  shows "builder_inv r A s'"
proof (cases "snd p")
  case (JObj kvs)
  define output_node :: node where "output_node = output_node_of app_id (fst p) kvs"
  have nid: "output_id_of app_id (fst p) kvs = nid output_node"
    and par: "parent output_node = Some app_id"
    and fl: "has_children output_node = expandable output_node"
    by (simp_all add: output_node_def output_node_of_def)
  from assms(3) obtain k where k: "hash_key (nid output_node) = Inr k"
    and r: "(case node_map s k of Some _ \<Rightarrow> Inr s
             | None \<Rightarrow> ebind (append_node output_node s)
                 (\<lambda>s1. Inr (append_link app_id (nid output_node) HasOutput s1))) = Inr s'"
    unfolding add_output_def JObj json.case Let_def nid output_node_def [symmetric]
    by (auto simp: ebind_def split: sum.splits)
  show ?thesis
  proof (cases "node_map s k")
    case None
    with r obtain s1 where s1: "append_node output_node s = Inr s1"
      and s': "s' = append_link app_id (nid output_node) HasOutput s1"
      by (auto simp: ebind_def split: sum.splits)
    have "builder_inv r (insert (nid output_node) A) s1"
      using assms(1) s1 par assms(2) fl
    proof (rule append_node_inv)
      show "ntype output_node = Output \<longrightarrow>
            (\<forall>k. hash_key (nid output_node) = Inr k \<longrightarrow> node_map s k = None)"
        using k None by simp
    qed
    then have "builder_inv r A s1" by (rule builder_inv_insertD)
    then show ?thesis by (simp add: s')
  next
    case (Some a)
    with r assms(1) show ?thesis by simp
  qed
qed (use assms in \<open>simp_all add: add_output_def\<close>)

lemma add_input_inv:
  assumes "builder_inv r A s" and "app_id \<in> A" and "add_input app_id x s = Inr s'"
  shows "builder_inv r A s'"
proof (cases x)
  case (JObj kvs)
  from assms(3) show ?thesis
    unfolding add_input_def JObj json.case Let_def
    by (rule emit_children [OF assms(1,2), where body = Inr]) simp_all
qed (use assms in \<open>simp_all add: add_input_def\<close>)

lemma emit_io:
  assumes "builder_inv r A s" and "pid \<in> A"
    and "ebind (append_node n s) (\<lambda>s1. ebind (foldM (add_input i) ins (append_link a b t s1))
           (\<lambda>s2. foldM (add_output i) outs s2)) = Inr s'"
    and "nid n = i"
    and "parent n = Some pid" and "has_children n = expandable n" and "ntype n \<noteq> Output"
  shows "builder_inv r A s'"
  using assms(1-3,5-7)
proof (rule emit_children [where body = "\<lambda>s1. ebind (foldM (add_input i) ins s1) (\<lambda>s2. foldM (add_output i) outs s2)"])
  fix s1 s3
  assume 1: "builder_inv r (insert (nid n) A) s1"
    and "ebind (foldM (add_input i) ins s1) (\<lambda>s2. foldM (add_output i) outs s2) = Inr s3"
  then obtain s2 where 2: "foldM (add_input i) ins s1 = Inr s2" and 3: "foldM (add_output i) outs s2 = Inr s3"
    by (auto elim: ebind_InrE)
  have "builder_inv r (insert (nid n) A) s2"
    by (rule foldM_preserves [where Q = "builder_inv r (insert (nid n) A)", OF _ 1 2])
      (use assms(4) in \<open>blast intro: add_input_inv\<close>)
  show "builder_inv r (insert (nid n) A) s3"
    by (rule foldM_preserves [where Q = "builder_inv r (insert (nid n) A)", OF _ \<open>builder_inv r (insert (nid n) A) s2\<close> 3])
      (use assms(4) in \<open>blast intro: add_output_inv\<close>)
qed

lemma add_application_inv:
  assumes "builder_inv r A s" and "pid \<in> A" and "add_application pid x s = Inr s'"
  shows "builder_inv r A s'"
proof (cases x)
  case (JObj kvs)
  from assms(3) show ?thesis
    unfolding add_application_def JObj json.case Let_def
    apply -
    apply (erule ebind_InrE)
    apply (erule ebind_InrE)
    apply (erule ebind_InrE)
    apply (erule emit_io [OF assms(1,2)])
       apply simp_all
    done
qed (use assms in \<open>simp_all add: add_application_def\<close>)

lemma add_technique_inv:
  assumes "builder_inv r A s" and "pid \<in> A" and "add_technique pid x s = Inr s'"
  shows "builder_inv r A s'"
proof (cases x)
  case (JObj kvs)
  from assms(3) show ?thesis
    unfolding add_technique_def JObj json.case Let_def
    by (rule emit_for_each [OF assms(1,2)]) (simp_all, blast intro: add_application_inv)
qed (use assms in \<open>simp_all add: add_technique_def\<close>)

lemma add_integration_inv:
  assumes "builder_inv r A s" and "pid \<in> A" and "add_integration pid x s = Inr s'"
  shows "builder_inv r A s'"
proof (cases x)
  case (JObj kvs)
  show ?thesis
  proof (cases "kvs = []")
    case True
    with assms show ?thesis by (simp add: add_integration_def JObj)
  next
    case False
    from assms(3) show ?thesis
      unfolding add_integration_def JObj json.case Let_def if_not_P [OF False]
      by (rule emit_for_each [OF assms(1,2)]) (simp_all, blast intro: add_technique_inv)
  qed
qed (use assms in \<open>simp_all add: add_integration_def\<close>)

lemma add_specification_inv:
  assumes "builder_inv r A s" and "pid \<in> A" and "add_specification pid x s = Inr s'"
  shows "builder_inv r A s'"
proof (cases x)
  case (JObj kvs)
  from assms(3) show ?thesis
    unfolding add_specification_def JObj json.case Let_def
    by (rule emit_children [OF assms(1,2), where body = "add_integration
          (dict_get kvs ''id'' (JStr (py_str pid @ ''-spec-'' @ show_nat (length (nodes s)))))
          (dict_get kvs ''integration'' JNull)"])
      (simp_all, blast intro: add_integration_inv)
qed (use assms in \<open>simp_all add: add_specification_def\<close>)

lemma add_function_inv:
  assumes "builder_inv r A s" and "pid \<in> A" and "add_function pid x s = Inr s'"
  shows "builder_inv r A s'"
proof (cases x)
  case (JObj kvs)
  from assms(3) show ?thesis
    unfolding add_function_def JObj json.case Let_def
    by (rule emit_for_each [OF assms(1,2)]) (simp_all, blast intro: add_specification_inv)
qed (use assms in \<open>simp_all add: add_function_def\<close>)

lemma add_capability_inv:
  assumes "builder_inv r A s" and "JStr pid \<in> A" and "add_capability pid x s = Inr s'"
  shows "builder_inv r A s'"
proof (cases x)
  case (JObj kvs)
  from assms(3) show ?thesis
    unfolding add_capability_def JObj json.case Let_def
    by (rule emit_for_each [OF assms(1,2)]) (simp_all, blast intro: add_function_inv)
qed (use assms in \<open>simp_all add: add_capability_def\<close>)

lemma add_subcomponent_inv:
  assumes "builder_inv r A s" and "JStr pid \<in> A" and "add_subcomponent pid p s = Inr s'"
  shows "builder_inv r A s'"
proof (cases p)
  case (Pair subcomp_id subcomp)
  from assms(3) show ?thesis
    unfolding add_subcomponent_def Pair prod.case Let_def
    apply -
    apply (erule ebind_InrE)
    apply (erule ebind_InrE)
    apply (erule ebind_InrE)
    apply (erule emit_for_each [OF assms(1,2)])
       apply simp_all
    apply (blast intro: add_capability_inv)
    done
qed

lemma add_component_inv:
  assumes "builder_inv r A s" and "pid \<in> A" and "add_component pid subs p s = Inr s'"
  shows "builder_inv r A s'"
proof (cases p)
  case (Pair component_id component)
  from assms(3) show ?thesis
    unfolding add_component_def Pair prod.case Let_def
    apply -
    apply (erule ebind_InrE)
    apply (erule ebind_InrE)
    apply (erule ebind_InrE)
    apply (erule emit_foldM [OF assms(1,2)])
       apply simp_all
    apply (blast intro: add_subcomponent_inv)
    done
qed

lemma build_graph_data_inv:
  assumes "build_graph_data root_data components subcomponents = Inr g"
  shows "\<exists>root_id root_name root_description.
           hd (g_nodes g) = \<lparr>nid = root_id, name = root_name, ntype = ComponentGroup,
              description = root_description, parent = None, level = 0,
              expandable = True, has_children = (components \<noteq> [])\<rparr> \<and>
           g_nodes g \<noteq> [] \<and> parents_ok (g_nodes g) \<and> flags_ok (g_nodes g) \<and>
           outputs_fresh (g_nodes g)"
proof -
  from assms obtain root_id root_name root_description s0 s where
      s0: "append_node \<lparr>nid = root_id, name = root_name, ntype = ComponentGroup,
              description = root_description, parent = None, level = 0,
              expandable = True, has_children = (components \<noteq> [])\<rparr>
             \<lparr>nodes = [], links = [], node_map = Map.empty\<rparr> = Inr s0"
      and s: "foldM (add_component root_id subcomponents) components s0 = Inr s"
      and g: "g = \<lparr>g_nodes = nodes s, g_links = links s\<rparr>"
    unfolding build_graph_data_def Let_def
    by (elim ebind_InrE) auto
  let ?r = "\<lparr>nid = root_id, name = root_name, ntype = ComponentGroup,
              description = root_description, parent = None, level = 0,
              expandable = True, has_children = (components \<noteq> [])\<rparr>"
  from s0 have "builder_inv ?r {root_id} s0"
    by (auto simp: append_node_def builder_inv_def parents_ok_def covered_def flags_ok_def
        outputs_fresh_def elim!: ebind_InrE)
  then have "builder_inv ?r {root_id} s"
    by (rule foldM_preserves [where Q = "builder_inv ?r {root_id}", OF _ _ s, rotated])
      (blast intro: add_component_inv)
  then show ?thesis by (auto simp: builder_inv_def g)
qed

lemma show_nat_digit: "n < 10 \<Longrightarrow> show_nat n = [''0123456789'' ! n]"
  by (subst show_nat.simps) simp

lemmas builder_defs = build_graph_data_def ebind_def add_component_def append_node_def
  append_link_def add_subcomponent_def capabilities_of_def for_each_def add_capability_def
  add_function_def add_specification_def add_integration_def add_technique_def
  add_application_def add_input_def add_output_def output_id_of_def output_node_of_def
  dict_get_def Let_def show_nat_digit

lemmas example_defs = example_root_def example_components_def example_subcomponents_def
  example_app1_def example_app2_def example_capability_def example_graph_def example_node_def

lemma example_build:
  "build_graph_data example_root example_components example_subcomponents = Inr example_graph"
  by (simp add: builder_defs example_defs)

lemma root_only_build: "build_graph_data example_root [] [] = Inr root_only_graph"
  by (simp add: builder_defs example_root_def root_only_graph_def)

lemmas resolver_defs = get_node_details_def find_nested_node_def find_in_subcomponent_def
  find_in_capability_def find_in_function_def find_in_specification_def
  find_in_integration_def find_in_technique_def find_in_application_def find_in_io_def
  search_each_def id_is_def error_details_def dict_get_def ebind_def Let_def

section \<open>The node list of the graph\<close>

text \<open>
  Claim C1. In the node list that \<^verbatim>\<open>build_graph_data\<close> returns, the first node is the root
  and has no parent; every other node has a parent, and that parent is the id of a node
  at a smaller index of the same list.
\<close>

theorem build_graph_data_parents:
  assumes "build_graph_data root_data components subcomponents = Inr g"
  shows "g_nodes g \<noteq> [] \<and> parent (hd (g_nodes g)) = None \<and>
         (\<forall>i<length (g_nodes g). 0 < i \<longrightarrow>
            (\<exists>j<i. parent (g_nodes g ! i) = Some (nid (g_nodes g ! j))))"
  using build_graph_data_inv [OF assms] by (auto simp: parents_ok_def)

theorem build_graph_data_parents_witness:
  "build_graph_data example_root example_components example_subcomponents = Inr example_graph \<and>
   g_nodes example_graph \<noteq> [] \<and> parent (hd (g_nodes example_graph)) = None \<and>
   (\<exists>j<11. parent (g_nodes example_graph ! 11) = Some (nid (g_nodes example_graph ! j)))"
proof -
  have "(11::nat) < length (g_nodes example_graph)" and "(0::nat) < 11"
    by (simp_all add: example_graph_def)
  with build_graph_data_parents [OF example_build] example_build show ?thesis
    by blast
qed

text \<open>
  Claim C3. An output whose id (its own or the synthesized one) is already a key of
  \<^verbatim>\<open>node_map\<close>, the ids of all the nodes built so far, adds neither a node nor a link: the
  builder's state is unchanged. Hence no two output nodes of the returned graph have the
  same id, whatever applications they come from.
\<close>

theorem output_ids_unique:
  "(hash_key (output_id_of app_id output_idx kvs) = Inr k \<longrightarrow> node_map s k \<noteq> None \<longrightarrow>
      add_output app_id (output_idx, JObj kvs) s = Inr s) \<and>
   (build_graph_data root_data components subcomponents = Inr g \<longrightarrow>
      (\<forall>j<length (g_nodes g). \<forall>i<j.
         ntype (g_nodes g ! i) = Output \<and> ntype (g_nodes g ! j) = Output \<longrightarrow>
         nid (g_nodes g ! i) \<noteq> nid (g_nodes g ! j)))"
proof (intro conjI impI)
  assume "hash_key (output_id_of app_id output_idx kvs) = Inr k" and "node_map s k \<noteq> None"
  then show "add_output app_id (output_idx, JObj kvs) s = Inr s"
    by (auto simp: add_output_def ebind_def)
next
  assume "build_graph_data root_data components subcomponents = Inr g"
  then have "outputs_fresh (g_nodes g)"
    by (auto dest: build_graph_data_inv)
  then show "\<forall>j<length (g_nodes g). \<forall>i<j.
         ntype (g_nodes g ! i) = Output \<and> ntype (g_nodes g ! j) = Output \<longrightarrow>
         nid (g_nodes g ! i) \<noteq> nid (g_nodes g ! j)"
    unfolding outputs_fresh_def by metis
qed

theorem output_ids_unique_witness:
  "add_output (JStr ''app2'') (0, JObj [(''id'', JStr ''o1'')]) example_state = Inr example_state \<and>
   build_graph_data example_root example_components example_subcomponents = Inr example_graph \<and>
   ntype (g_nodes example_graph ! 10) = Output \<and> ntype (g_nodes example_graph ! 11) = Output \<and>
   nid (g_nodes example_graph ! 10) \<noteq> nid (g_nodes example_graph ! 11)"
proof -
  have 1: "hash_key (output_id_of (JStr ''app2'') 0 [(''id'', JStr ''o1'')]) = Inr (KStr ''o1'')"
    by (simp add: output_id_of_def)
  have 2: "node_map example_state (KStr ''o1'') \<noteq> None"
    by (simp add: example_state_def)
  have 3: "(11::nat) < length (g_nodes example_graph)" and 4: "(10::nat) < 11"
    and 5: "ntype (g_nodes example_graph ! 10) = Output"
    and 6: "ntype (g_nodes example_graph ! 11) = Output"
    by (simp_all add: example_graph_def example_node_def)
  from output_ids_unique [of "JStr ''app2''" 0 "[(''id'', JStr ''o1'')]" "KStr ''o1''" example_state
      example_root example_components example_subcomponents example_graph] 1 2 3 4 5 6 example_build
  show ?thesis by blast
qed

text \<open>
  Claim C4, as amended. The root node has \<^verbatim>\<open>expandable\<close> true for every components
  mapping, empty or not; it is its \<^verbatim>\<open>has_children\<close> field that is true exactly when the
  components mapping is not empty.
\<close>

theorem root_node_flags:
  assumes "build_graph_data root_data components subcomponents = Inr g"
  shows "g_nodes g \<noteq> [] \<and> ntype (hd (g_nodes g)) = ComponentGroup \<and>
         expandable (hd (g_nodes g)) \<and> (has_children (hd (g_nodes g)) \<longleftrightarrow> components \<noteq> [])"
  using build_graph_data_inv [OF assms] by auto

theorem root_node_flags_witness:
  "build_graph_data example_root example_components example_subcomponents = Inr example_graph \<and>
   g_nodes example_graph \<noteq> [] \<and> ntype (hd (g_nodes example_graph)) = ComponentGroup \<and>
   expandable (hd (g_nodes example_graph)) \<and>
   (has_children (hd (g_nodes example_graph)) \<longleftrightarrow> example_components \<noteq> [])"
  using root_node_flags [OF example_build] example_build by blast

text \<open>
  The claim as stated fails where there are no components: the root is still expandable.
\<close>

theorem root_expandable_counterexample:
  "build_graph_data example_root [] [] = Inr root_only_graph \<and>
   expandable (hd (g_nodes root_only_graph))"
  using root_only_build by (simp add: root_only_graph_def)

text \<open>
  Claim C5, as amended. For every node of the returned list other than the root,
  \<^verbatim>\<open>has_children\<close> equals \<^verbatim>\<open>expandable\<close>; for the root the two are equal exactly when the
  components mapping is not empty.
\<close>

theorem has_children_expandable:
  assumes "build_graph_data root_data components subcomponents = Inr g"
  shows "(\<forall>n\<in>set (tl (g_nodes g)). has_children n = expandable n) \<and>
         (has_children (hd (g_nodes g)) = expandable (hd (g_nodes g)) \<longleftrightarrow> components \<noteq> [])"
  using build_graph_data_inv [OF assms] by (auto simp: flags_ok_def)

theorem has_children_expandable_witness:
  "build_graph_data example_root example_components example_subcomponents = Inr example_graph \<and>
   has_children (example_node ''app2'' ''Application'' Application ''tech'' 8 True) =
     expandable (example_node ''app2'' ''Application'' Application ''tech'' 8 True) \<and>
   (has_children (hd (g_nodes example_graph)) = expandable (hd (g_nodes example_graph))
      \<longleftrightarrow> example_components \<noteq> [])"
proof -
  have "example_node ''app2'' ''Application'' Application ''tech'' 8 True
          \<in> set (tl (g_nodes example_graph))"
    by (simp add: example_graph_def)
  with has_children_expandable [OF example_build] example_build show ?thesis
    by blast
qed

text \<open>
  The claim as stated fails for the root where there are no components: \<^verbatim>\<open>expandable\<close> is
  true and \<^verbatim>\<open>has_children\<close> is false.
\<close>

theorem has_children_expandable_counterexample:
  "build_graph_data example_root [] [] = Inr root_only_graph \<and>
   has_children (hd (g_nodes root_only_graph)) \<noteq> expandable (hd (g_nodes root_only_graph))"
  using root_only_build by (simp add: root_only_graph_def)

section \<open>Resolving node ids\<close>

text \<open>
  Claim C10. In the example documents the output \<^verbatim>\<open>o2\<close> has an explicit id and occurs only
  in the \<^verbatim>\<open>outputs\<close> field of the input \<^verbatim>\<open>in1\<close>. The builder emits an output node for it,
  and \<^verbatim>\<open>get_node_details\<close> answers 404 for its id: the nested search looks at the inputs
  and outputs of an application, not at the outputs inside an input.
\<close>

theorem nested_output_not_resolvable:
  "build_graph_data example_root example_components example_subcomponents = Inr example_graph \<and>
   example_node ''o2'' ''Output 2'' Output ''app1'' 9 False \<in> set (g_nodes example_graph) \<and>
   get_node_details ''o2'' example_root example_components example_subcomponents =
     Inr (error_details ''Node not found: o2'' ''o2'' ''Unknown Node'' ''Node details not found''
            ''unknown'', 404)"
proof -
  have "get_node_details ''o2'' example_root example_components example_subcomponents =
     Inr (error_details ''Node not found: o2'' ''o2'' ''Unknown Node'' ''Node details not found''
            ''unknown'', 404)"
    by (simp add: resolver_defs example_defs)
  moreover have "example_node ''o2'' ''Output 2'' Output ''app1'' 9 False \<in> set (g_nodes example_graph)"
    by (simp add: example_graph_def)
  ultimately show ?thesis using example_build by simp
qed

text \<open>
  Claim C7, as amended. A node id that is a key of the subcomponents mapping, and is
  neither \<^verbatim>\<open>ai-alignment\<close>, nor the id of the root document, nor a key of the components
  mapping, resolves to the stored subcomponent document itself with status 200, when
  that document is a dictionary. The result does not depend on the nested search, so a
  deeper fragment with the same id changes nothing.
\<close>

theorem resolve_subcomponent:
  assumes "py_bool root_data" and "node_id \<noteq> ''ai-alignment''"
    and "py_getitem root_data ''id'' = Inr root_id" and "root_id \<noteq> JStr node_id"
    and "map_of components node_id = None"
    and "map_of subcomponents node_id = Some (JObj kvs)"
  shows "get_node_details node_id root_data components subcomponents = Inr (JObj kvs, 200)"
  using assms by (auto simp: get_node_details_def ebind_def)

text \<open>
  In the witness the capability of \<^verbatim>\<open>s1\<close> has the id \<^verbatim>\<open>s2\<close> of the second subcomponent:
  the nested search would return the capability, the resolver returns the subcomponent.
\<close>

theorem resolve_subcomponent_witness:
  "py_bool example_root \<and> ''s2'' \<noteq> ''ai-alignment'' \<and>
   py_getitem example_root ''id'' = Inr (JStr ''ai-alignment'') \<and>
   map_of example_components ''s2'' = None \<and>
   map_of twin_subcomponents ''s2'' =
     Some (JObj [(''id'', JStr ''s2''), (''name'', JStr ''subcomponent s2'')]) \<and>
   find_nested_node ''s2'' twin_subcomponents =
     Inr (Some (JObj [(''id'', JStr ''s2''), (''name'', JStr ''a capability of s1'')])) \<and>
   get_node_details ''s2'' example_root example_components twin_subcomponents =
     Inr (JObj [(''id'', JStr ''s2''), (''name'', JStr ''subcomponent s2'')], 200)"
proof -
  have 1: "py_bool example_root" and 2: "''s2'' \<noteq> ''ai-alignment''"
    and 3: "py_getitem example_root ''id'' = Inr (JStr ''ai-alignment'')"
    and 4: "JStr ''ai-alignment'' \<noteq> JStr ''s2''"
    and 5: "map_of example_components ''s2'' = None"
    and 6: "map_of twin_subcomponents ''s2'' =
      Some (JObj [(''id'', JStr ''s2''), (''name'', JStr ''subcomponent s2'')])"
    by (simp_all add: example_root_def example_components_def twin_subcomponents_def)
  have 7: "find_nested_node ''s2'' twin_subcomponents =
     Inr (Some (JObj [(''id'', JStr ''s2''), (''name'', JStr ''a capability of s1'')]))"
    by (simp add: resolver_defs twin_subcomponents_def)
  from resolve_subcomponent [OF 1 2 3 4 5 6] 1 2 3 5 6 7 show ?thesis by simp
qed

text \<open>
  The claim as stated fails for a key of the subcomponents mapping that is also a key of
  the components mapping: the component document is returned.
\<close>

theorem resolve_subcomponent_counterexample:
  "map_of shadow_subcomponents ''x'' =
     Some (JObj [(''id'', JStr ''x''), (''name'', JStr ''subcomponent x'')]) \<and>
   get_node_details ''x'' example_root shadow_components shadow_subcomponents =
     Inr (JObj [(''name'', JStr ''component x'')], 200)"
  by (simp add: get_node_details_def ebind_def example_root_def shadow_components_def
      shadow_subcomponents_def)

section \<open>Loading documents\<close>

lemma try_encodings_None:
  "(\<forall>encoding\<in>set es. try_encoding json_loads f encoding = None) \<Longrightarrow>
   try_encodings json_loads f es = None"
  by (induction es) simp_all

text \<open>
  Claim C8. When the root file is missing, when no encoding yields a document, when the
  content is empty under every encoding, and in general whenever \<^verbatim>\<open>load_json_file\<close>
  returns \<^verbatim>\<open>None\<close>, \<^verbatim>\<open>get_root_data\<close> returns \<^verbatim>\<open>DEFAULT_ROOT_DATA\<close>, whose id is
  \<^verbatim>\<open>ai-alignment\<close> and whose list of components has 4 entries. Every exception of the
  source is caught inside \<^verbatim>\<open>load_json_file\<close>, so \<^verbatim>\<open>get_root_data\<close> is a function without
  an error result.
\<close>

theorem get_root_data_default:
  "get_root_data json_loads None = DEFAULT_ROOT_DATA \<and>
   ((\<forall>encoding\<in>set encodings. try_encoding json_loads f encoding = None) \<longrightarrow>
      get_root_data json_loads (Some f) = DEFAULT_ROOT_DATA) \<and>
   ((\<forall>encoding\<in>set encodings. \<exists>raw. f encoding = Some raw \<and> strip raw = []) \<longrightarrow>
      get_root_data json_loads (Some f) = DEFAULT_ROOT_DATA) \<and>
   (load_json_file json_loads path = None \<longrightarrow> get_root_data json_loads path = DEFAULT_ROOT_DATA) \<and>
   py_getitem DEFAULT_ROOT_DATA ''id'' = Inr (JStr ''ai-alignment'') \<and>
   (\<exists>cs. py_getitem DEFAULT_ROOT_DATA ''components'' = Inr (JArr cs) \<and> length cs = 4)"
proof (intro conjI impI)
  show "get_root_data json_loads None = DEFAULT_ROOT_DATA"
    by (simp add: get_root_data_def load_json_file_def)
next
  assume "\<forall>encoding\<in>set encodings. try_encoding json_loads f encoding = None"
  then have "try_encodings json_loads f encodings = None" by (rule try_encodings_None)
  then show "get_root_data json_loads (Some f) = DEFAULT_ROOT_DATA"
    by (simp add: get_root_data_def load_json_file_def)
next
  assume "\<forall>encoding\<in>set encodings. \<exists>raw. f encoding = Some raw \<and> strip raw = []"
  then have "\<forall>encoding\<in>set encodings. try_encoding json_loads f encoding = None"
    by (auto simp: try_encoding_def)
  then have "try_encodings json_loads f encodings = None" by (rule try_encodings_None)
  then show "get_root_data json_loads (Some f) = DEFAULT_ROOT_DATA"
    by (simp add: get_root_data_def load_json_file_def)
next
  assume "load_json_file json_loads path = None"
  then show "get_root_data json_loads path = DEFAULT_ROOT_DATA"
    by (simp add: get_root_data_def)
next
  show "py_getitem DEFAULT_ROOT_DATA ''id'' = Inr (JStr ''ai-alignment'')"
    by (simp add: DEFAULT_ROOT_DATA_def)
next
  show "\<exists>cs. py_getitem DEFAULT_ROOT_DATA ''components'' = Inr (JArr cs) \<and> length cs = 4"
    by (simp add: DEFAULT_ROOT_DATA_def)
qed

theorem get_root_data_default_witness:
  "get_root_data reject_all (Some (\<lambda>encoding. Some object_text)) = DEFAULT_ROOT_DATA \<and>
   get_root_data parse_two (Some empty_file) = DEFAULT_ROOT_DATA \<and>
   load_json_file parse_two None = None \<and>
   get_root_data parse_two None = DEFAULT_ROOT_DATA"
proof -
  have 1: "\<forall>encoding\<in>set encodings. try_encoding reject_all (\<lambda>encoding. Some object_text) encoding = None"
    by (simp add: encodings_def try_encoding_def reject_all_def Let_def)
  have 2: "\<forall>encoding\<in>set encodings. \<exists>raw. empty_file encoding = Some raw \<and> strip raw = []"
    by (simp add: encodings_def empty_file_def strip_def)
  have 3: "load_json_file parse_two None = None"
    by (simp add: load_json_file_def)
  from get_root_data_default [of reject_all "\<lambda>encoding. Some object_text" None]
    get_root_data_default [of parse_two empty_file None] 1 2 3
  show ?thesis by blast
qed

text \<open>
  Claim C9 fails on the code. With the file a.json alone its entry is returned. With a
  second file b.json that holds the array \<^verbatim>\<open>[1]\<close>, the assignment of the id to the list
  raises: \<^verbatim>\<open>get_subcomponents\<close> of app.py catches it around the whole loop and returns the
  empty dictionary, without the entry of a.json, and \<^verbatim>\<open>get_subcomponents\<close> of
  node\_details\_helper.py raises.
\<close>

theorem get_subcomponents_array_file:
  "get_subcomponents_app parse_two (Some [hd two_files]) =
     [(''a'', JObj [(''name'', JStr ''A''), (''id'', JStr ''a'')])] \<and>
   get_subcomponents_app parse_two (Some two_files) = [] \<and>
   get_subcomponents_helper parse_two (Some two_files) = Inl TypeError"
  by (simp add: get_subcomponents_app_def get_subcomponents_helper_def load_subcomponent_def
      load_json_file_def encodings_def try_encoding_def strip_def is_space_def two_files_def
      parse_two_def object_text_def array_text_def ebind_def Let_def upt_rec)

section \<open>The outputs of an application\<close>

lemma unique_outputs_dedup:
  "unique_outputs xs acc ids = Inr r \<Longrightarrow>
   r = acc @ dedup_by_id (filter (\<lambda>y. \<forall>k. fragment_key y = Some k \<longrightarrow> k \<notin> ids) xs)"
proof (induction xs arbitrary: acc ids)
  case Nil
  then show ?case by simp
next
  case (Cons x xs)
  show ?case
  proof (cases x)
    case (JObj kvs)
    show ?thesis
    proof (cases "py_bool (dict_get kvs ''id'' JNull)")
      case False
      then have key: "fragment_key x = None" by (simp add: fragment_key_def JObj)
      from Cons.prems False have "unique_outputs xs (acc @ [x]) ids = Inr r"
        by (simp add: JObj)
      from Cons.IH [OF this] key show ?thesis by (simp add: JObj)
    next
      case True
      with Cons.prems obtain k where k: "hash_key (dict_get kvs ''id'' JNull) = Inr k"
        by (auto simp: JObj split: sum.splits)
      with True have key: "fragment_key x = Some k" by (simp add: fragment_key_def JObj)
      show ?thesis
      proof (cases "k \<in> ids")
        case True
        with Cons.prems k \<open>py_bool (dict_get kvs ''id'' JNull)\<close>
        have "unique_outputs xs acc ids = Inr r" by (simp add: JObj)
        from Cons.IH [OF this] key True show ?thesis by simp
      next
        case False
        with Cons.prems k \<open>py_bool (dict_get kvs ''id'' JNull)\<close>
        have "unique_outputs xs (acc @ [x]) (insert k ids) = Inr r" by (simp add: JObj)
        from Cons.IH [OF this] have "r = (acc @ [x]) @ dedup_by_id
            (filter (\<lambda>y. \<forall>k'. fragment_key y = Some k' \<longrightarrow> k' \<notin> insert k ids) xs)" .
        moreover have "filter (\<lambda>y. \<forall>k'. fragment_key y = Some k' \<longrightarrow> k' \<notin> insert k ids) xs =
            filter (\<lambda>y. fragment_key y \<noteq> Some k)
              (filter (\<lambda>y. \<forall>k. fragment_key y = Some k \<longrightarrow> k \<notin> ids) xs)"
          by (simp, rule filter_cong, auto)
        ultimately show ?thesis using key False by (simp add: JObj)
      qed
    qed
  qed (use Cons in \<open>simp_all add: fragment_key_def\<close>)
qed

lemma append_node_state:
  assumes "append_node n s = Inr s1"
  obtains k where "hash_key (nid n) = Inr k" and "nodes s1 = nodes s @ [n]"
    and "dom (node_map s1) = insert k (dom (node_map s))"
  using assms by (auto simp: append_node_def elim!: ebind_InrE)

lemma nodes_append_link [simp]: "nodes (append_link a b t s) = nodes s"
  by (simp add: append_link_def)

lemma node_map_append_link [simp]: "node_map (append_link a b t s) = node_map s"
  by (simp add: append_link_def)

lemma node_keys_Cons:
  "hash_key (nid n) = Inr k \<Longrightarrow> node_keys (n # ns) = insert k (node_keys ns)"
  by (simp add: node_keys_def)

lemma node_keys_Nil [simp]: "node_keys [] = {}"
  by (simp add: node_keys_def)

lemma add_inputs_exact:
  "foldM (add_input i) xs s = Inr s' \<Longrightarrow>
   nodes s' = nodes s @ input_nodes_of i (length (nodes s)) xs \<and>
   dom (node_map s') = dom (node_map s) \<union> node_keys (input_nodes_of i (length (nodes s)) xs)"
proof (induction xs arbitrary: s)
  case Nil
  then show ?case by simp
next
  case (Cons x xs)
  then obtain s1 where 1: "add_input i x s = Inr s1" and 2: "foldM (add_input i) xs s1 = Inr s'"
    by (auto split: sum.splits)
  show ?case
  proof (cases x)
    case (JObj kvs)
    from 1 obtain s0 where 3: "append_node (input_node_of i (length (nodes s)) kvs) s = Inr s0"
      and s1: "s1 = append_link i (nid (input_node_of i (length (nodes s)) kvs)) HasInput s0"
      unfolding add_input_def JObj json.case Let_def input_node_of_def
      by (elim ebind_InrE) auto
    from 3 obtain k where k: "hash_key (nid (input_node_of i (length (nodes s)) kvs)) = Inr k"
      and n0: "nodes s0 = nodes s @ [input_node_of i (length (nodes s)) kvs]"
      and d0: "dom (node_map s0) = insert k (dom (node_map s))"
      by (rule append_node_state)
    from n0 s1 have len: "length (nodes s1) = Suc (length (nodes s))" by simp
    from Cons.IH [OF 2] show ?thesis
      unfolding len by (simp add: JObj s1 n0 d0 node_keys_Cons [OF k])
  qed (use 1 Cons.IH [OF 2] in \<open>simp_all add: add_input_def\<close>)
qed

lemma add_outputs_exact:
  "foldM (add_output i) ps s = Inr s' \<Longrightarrow>
   nodes s' = nodes s @ emit_outputs i ps (dom (node_map s))"
proof (induction ps arbitrary: s)
  case Nil
  then show ?case by simp
next
  case (Cons p ps)
  then obtain s1 where 1: "add_output i p s = Inr s1" and 2: "foldM (add_output i) ps s1 = Inr s'"
    by (auto split: sum.splits)
  show ?case
  proof (cases "snd p")
    case (JObj kvs)
    have nid: "nid (output_node_of i (fst p) kvs) = output_id_of i (fst p) kvs"
      by (simp add: output_node_of_def)
    from 1 obtain k where k: "hash_key (output_id_of i (fst p) kvs) = Inr k"
      and r: "(case node_map s k of
                 Some _ \<Rightarrow> Inr s
               | None \<Rightarrow> ebind (append_node (output_node_of i (fst p) kvs) s)
                   (\<lambda>s1. Inr (append_link i (output_id_of i (fst p) kvs) HasOutput s1))) = Inr s1"
      unfolding add_output_def JObj json.case Let_def by (rule ebind_InrE)
    show ?thesis
    proof (cases "node_map s k")
      case None
      with r obtain s0 where 3: "append_node (output_node_of i (fst p) kvs) s = Inr s0"
        and s1: "s1 = append_link i (output_id_of i (fst p) kvs) HasOutput s0"
        by (auto elim!: ebind_InrE)
      from 3 obtain k' where "hash_key (nid (output_node_of i (fst p) kvs)) = Inr k'"
        and n0: "nodes s0 = nodes s @ [output_node_of i (fst p) kvs]"
        and "dom (node_map s0) = insert k' (dom (node_map s))"
        by (rule append_node_state)
      with k nid have d0: "dom (node_map s0) = insert k (dom (node_map s))" by simp
      from None have "k \<notin> dom (node_map s)" by (simp add: domIff)
      with Cons.IH [OF 2] show ?thesis by (simp add: JObj k s1 n0 d0)
    next
      case (Some a)
      then have "k \<in> dom (node_map s)" by (simp add: domIff)
      moreover from r Some have "s1 = s" by simp
      ultimately show ?thesis using Cons.IH [OF 2] by (simp add: JObj k)
    qed
  qed (use 1 Cons.IH [OF 2] in \<open>simp_all add: add_output_def\<close>)
qed

lemma input_nodes_type: "m \<in> set (input_nodes_of i n xs) \<Longrightarrow> ntype m = Input"
  by (induction xs arbitrary: n) (auto simp: input_node_of_def split: json.splits)

lemma emit_outputs_type: "m \<in> set (emit_outputs i ps K) \<Longrightarrow> ntype m = Output"
  by (induction ps arbitrary: K)
    (auto simp: output_node_of_def split: json.splits sum.splits if_splits)

text \<open>
  Claim C2. When \<^verbatim>\<open>build_graph_data\<close> processes an application, the inputs are iterable
  and the application's own outputs are a list; the loop that makes the outputs unique
  returns the application's own outputs followed by the outputs nested in its inputs,
  deduplicated by the specification's rule \<open>dedup_by_id\<close>. The nodes added for the
  application are exactly the application node, the input nodes, and one output node
  for every output of the deduplicated list, with or without an id of its own, whose id
  is not already the id of a node built before it; so the output nodes added are exactly
  \<open>emit_outputs\<close> of the deduplicated list.
\<close>

theorem application_outputs:
  assumes "add_application technique_id (JObj kvs) s = Inr s'"
  shows "\<exists>input_items standalone.
           py_iter (dict_get kvs ''inputs'' (JArr [])) = Inr input_items \<and>
           dict_get kvs ''outputs'' (JArr []) = JArr standalone \<and>
           unique_outputs (standalone @ nested_outputs_of input_items) [] {} =
             Inr (dedup_by_id (standalone @ nested_outputs_of input_items)) \<and>
           (let outputs = dedup_by_id (standalone @ nested_outputs_of input_items);
                app_node = application_node_of technique_id kvs (length (nodes s)) outputs;
                input_nodes = input_nodes_of (nid app_node) (Suc (length (nodes s))) input_items;
                output_nodes = emit_outputs (nid app_node) (enumerate 0 outputs)
                  (dom (node_map s) \<union> node_keys (app_node # input_nodes))
            in nodes s' = nodes s @ app_node # input_nodes @ output_nodes \<and>
               filter (\<lambda>n. ntype n = Output) (drop (length (nodes s)) (nodes s')) = output_nodes)"
proof -
  define app_id where "app_id = dict_get kvs ''id''
     (JStr (py_str technique_id @ ''-app-'' @ show_nat (length (nodes s))))"
  from assms obtain input_items all_outputs outputs s1 s2 where
      it: "py_iter (dict_get kvs ''inputs'' (JArr [])) = Inr input_items"
      and cat: "py_concat (dict_get kvs ''outputs'' (JArr [])) (nested_outputs_of input_items)
                  = Inr all_outputs"
      and uniq: "unique_outputs all_outputs [] {} = Inr outputs"
      and n: "append_node (application_node_of technique_id kvs (length (nodes s)) outputs) s
                = Inr s1"
      and ins: "foldM (add_input app_id) input_items
                   (append_link technique_id app_id HasApplication s1) = Inr s2"
      and outs: "foldM (add_output app_id) (enumerate 0 outputs) s2 = Inr s'"
    unfolding add_application_def json.case Let_def application_node_of_def [symmetric]
      app_id_def [symmetric]
    by (elim ebind_InrE) (rule that)
  define app_node where
    "app_node = application_node_of technique_id kvs (length (nodes s)) outputs"
  have nid: "nid app_node = app_id"
    by (simp add: app_node_def application_node_of_def app_id_def)
  have type: "ntype app_node = Application"
    by (simp add: app_node_def application_node_of_def)
  define input_nodes where
    "input_nodes = input_nodes_of app_id (Suc (length (nodes s))) input_items"
  define output_nodes where
    "output_nodes = emit_outputs app_id (enumerate 0 outputs)
       (dom (node_map s) \<union> node_keys (app_node # input_nodes))"
  from cat obtain standalone where st: "dict_get kvs ''outputs'' (JArr []) = JArr standalone"
    and all: "all_outputs = standalone @ nested_outputs_of input_items"
    by (cases "dict_get kvs ''outputs'' (JArr [])") auto
  from unique_outputs_dedup [OF uniq] have dd: "outputs = dedup_by_id all_outputs" by simp
  from n obtain k where k: "hash_key (nid app_node) = Inr k"
    and n1: "nodes s1 = nodes s @ [app_node]"
    and d1: "dom (node_map s1) = insert k (dom (node_map s))"
    unfolding app_node_def [symmetric] by (rule append_node_state)
  from add_inputs_exact [OF ins] n1 d1
  have n2: "nodes s2 = nodes s @ app_node # input_nodes"
    and d2: "dom (node_map s2) = dom (node_map s) \<union> node_keys (app_node # input_nodes)"
    by (simp_all add: input_nodes_def node_keys_Cons [OF k])
  from add_outputs_exact [OF outs] n2 d2
  have n3: "nodes s' = nodes s @ app_node # input_nodes @ output_nodes"
    by (simp add: output_nodes_def)
  have "filter (\<lambda>n. ntype n = Output) input_nodes = []"
    by (auto simp: filter_empty_conv input_nodes_def dest: input_nodes_type)
  moreover have "filter (\<lambda>n. ntype n = Output) output_nodes = output_nodes"
    by (auto simp: filter_id_conv output_nodes_def dest: emit_outputs_type)
  ultimately have f: "filter (\<lambda>n. ntype n = Output) (drop (length (nodes s)) (nodes s'))
      = output_nodes"
    using type by (simp add: n3)
  have u: "unique_outputs (standalone @ nested_outputs_of input_items) [] {} =
      Inr (dedup_by_id (standalone @ nested_outputs_of input_items))"
    using uniq dd all by simp
  have "let outputs = dedup_by_id (standalone @ nested_outputs_of input_items);
            app_node = application_node_of technique_id kvs (length (nodes s)) outputs;
            input_nodes = input_nodes_of (nid app_node) (Suc (length (nodes s))) input_items;
            output_nodes = emit_outputs (nid app_node) (enumerate 0 outputs)
              (dom (node_map s) \<union> node_keys (app_node # input_nodes))
        in nodes s' = nodes s @ app_node # input_nodes @ output_nodes \<and>
           filter (\<lambda>n. ntype n = Output) (drop (length (nodes s)) (nodes s')) = output_nodes"
    unfolding Let_def dd [unfolded all, symmetric] app_node_def [symmetric] nid
      input_nodes_def [symmetric] output_nodes_def [symmetric]
    using n3 f by (rule conjI)
  with it st u show ?thesis by (intro exI conjI)
qed

lemma claim_app_run:
  "\<exists>s'. add_application (JStr ''tech'') claim_app empty_state = Inr s'"
  by (simp add: claim_app_def claim_outputs_def claim_inputs_def empty_state_def builder_defs)

lemma unnamed_app_run:
  "\<exists>s'. add_application (JStr ''tech'') unnamed_app empty_state = Inr s'"
  by (simp add: unnamed_app_def empty_state_def builder_defs)

lemmas application_nodes_defs = application_node_of_def input_node_of_def output_id_of_def
  output_node_of_def node_keys_def fragment_key_def dict_get_def empty_state_def
  example_node_def show_nat_digit Let_def

text \<open>
  The witness is the example of the claim, in the state before any node: the theorem
  gives exactly the application node, the input node and the two output nodes \<^verbatim>\<open>o1\<close> and
  \<^verbatim>\<open>o2\<close>, each once. For the application with two equal outputs without an id it gives
  both output nodes, with the ids made of the application's id and the index.
\<close>

theorem application_outputs_witness:
  "(\<exists>s'. add_application (JStr ''tech'') claim_app empty_state = Inr s' \<and>
      nodes s' =
        [example_node ''tech-app-0'' ''Application'' Application ''tech'' 8 True,
         example_node ''tech-app-0-input-1'' ''Input'' Input ''tech-app-0'' 9 False,
         example_node ''o1'' ''Output 1'' Output ''tech-app-0'' 9 False,
         example_node ''o2'' ''Output 2'' Output ''tech-app-0'' 9 False]) \<and>
   (\<exists>s'. add_application (JStr ''tech'') unnamed_app empty_state = Inr s' \<and>
      nodes s' =
        [example_node ''app'' ''Application'' Application ''tech'' 8 True,
         example_node ''app-output-0'' ''out'' Output ''app'' 9 False,
         example_node ''app-output-1'' ''out'' Output ''app'' 9 False])"
proof (rule conjI)
  let ?kvs = "[(''outputs'', JArr claim_outputs), (''inputs'', JArr claim_inputs)]"
  from claim_app_run obtain s' where
      run: "add_application (JStr ''tech'') (JObj ?kvs) empty_state = Inr s'"
    unfolding claim_app_def by (elim exE)
  from application_outputs [OF run] obtain input_items standalone where
      1: "py_iter (dict_get ?kvs ''inputs'' (JArr [])) = Inr input_items"
      and 2: "dict_get ?kvs ''outputs'' (JArr []) = JArr standalone"
      and 3: "let outputs = dedup_by_id (standalone @ nested_outputs_of input_items);
            app_node = application_node_of (JStr ''tech'') ?kvs (length (nodes empty_state)) outputs;
            input_nodes =
              input_nodes_of (nid app_node) (Suc (length (nodes empty_state))) input_items;
            output_nodes = emit_outputs (nid app_node) (enumerate 0 outputs)
              (dom (node_map empty_state) \<union> node_keys (app_node # input_nodes))
        in nodes s' = nodes empty_state @ app_node # input_nodes @ output_nodes \<and>
           filter (\<lambda>n. ntype n = Output) (drop (length (nodes empty_state)) (nodes s'))
             = output_nodes"
    by (elim exE conjE)
  from 1 have 4: "input_items = claim_inputs" by (simp add: dict_get_def)
  from 2 have 5: "standalone = claim_outputs" by (simp add: dict_get_def)
  from 3 have "nodes s' =
        [example_node ''tech-app-0'' ''Application'' Application ''tech'' 8 True,
         example_node ''tech-app-0-input-1'' ''Input'' Input ''tech-app-0'' 9 False,
         example_node ''o1'' ''Output 1'' Output ''tech-app-0'' 9 False,
         example_node ''o2'' ''Output 2'' Output ''tech-app-0'' 9 False]"
    unfolding 4 5 by (simp add: application_nodes_defs claim_outputs_def claim_inputs_def)
  with run show "\<exists>s'. add_application (JStr ''tech'') claim_app empty_state = Inr s' \<and>
      nodes s' =
        [example_node ''tech-app-0'' ''Application'' Application ''tech'' 8 True,
         example_node ''tech-app-0-input-1'' ''Input'' Input ''tech-app-0'' 9 False,
         example_node ''o1'' ''Output 1'' Output ''tech-app-0'' 9 False,
         example_node ''o2'' ''Output 2'' Output ''tech-app-0'' 9 False]"
    unfolding claim_app_def by (intro exI [of _ s'] conjI)
next
  let ?kvs = "[(''id'', JStr ''app''),
     (''outputs'', JArr [JObj [(''name'', JStr ''out'')], JObj [(''name'', JStr ''out'')]])]"
  from unnamed_app_run obtain s' where
      run: "add_application (JStr ''tech'') (JObj ?kvs) empty_state = Inr s'"
    unfolding unnamed_app_def by (elim exE)
  from application_outputs [OF run] obtain input_items standalone where
      1: "py_iter (dict_get ?kvs ''inputs'' (JArr [])) = Inr input_items"
      and 2: "dict_get ?kvs ''outputs'' (JArr []) = JArr standalone"
      and 3: "let outputs = dedup_by_id (standalone @ nested_outputs_of input_items);
            app_node = application_node_of (JStr ''tech'') ?kvs (length (nodes empty_state)) outputs;
            input_nodes =
              input_nodes_of (nid app_node) (Suc (length (nodes empty_state))) input_items;
            output_nodes = emit_outputs (nid app_node) (enumerate 0 outputs)
              (dom (node_map empty_state) \<union> node_keys (app_node # input_nodes))
        in nodes s' = nodes empty_state @ app_node # input_nodes @ output_nodes \<and>
           filter (\<lambda>n. ntype n = Output) (drop (length (nodes empty_state)) (nodes s'))
             = output_nodes"
    by (elim exE conjE)
  from 1 have 4: "input_items = []" by (simp add: dict_get_def)
  from 2 have 5: "standalone = [JObj [(''name'', JStr ''out'')], JObj [(''name'', JStr ''out'')]]"
    by (simp add: dict_get_def)
  from 3 have "nodes s' =
        [example_node ''app'' ''Application'' Application ''tech'' 8 True,
         example_node ''app-output-0'' ''out'' Output ''app'' 9 False,
         example_node ''app-output-1'' ''out'' Output ''app'' 9 False]"
    unfolding 4 5 by (simp add: application_nodes_defs)
  with run show "\<exists>s'. add_application (JStr ''tech'') unnamed_app empty_state = Inr s' \<and>
      nodes s' =
        [example_node ''app'' ''Application'' Application ''tech'' 8 True,
         example_node ''app-output-0'' ''out'' Output ''app'' 9 False,
         example_node ''app-output-1'' ''out'' Output ''app'' 9 False]"
    unfolding unnamed_app_def by (intro exI [of _ s'] conjI)
qed

section \<open>The builder returns on documents of the expected shape\<close>

lemma ebind_Inr [simp]: "ebind (Inr x) f = f x"
  by (simp add: ebind_def)

lemma foldM_total:
  assumes "\<And>x s. x \<in> set xs \<Longrightarrow> \<exists>s'. f x s = Inr s'"
  shows "\<exists>s'. foldM f xs s = Inr s'"
  using assms
proof (induction xs arbitrary: s)
  case Nil
  then show ?case by simp
next
  case (Cons x xs)
  then obtain s1 where "f x s = Inr s1" by (meson list.set_intros(1))
  with Cons show ?case by simp
qed

lemma for_each_total:
  assumes "array_of P (map_of kvs k)" and "\<And>x s. P x \<Longrightarrow> \<exists>s'. f x s = Inr s'"
  shows "\<exists>s'. for_each (dict_get kvs k (JArr [])) f s = Inr s'"
proof (cases "map_of kvs k")
  case None
  then show ?thesis by (simp add: for_each_def dict_get_def)
next
  case (Some v)
  with assms(1) obtain xs where v: "v = JArr xs" and xs: "list_all P xs"
    by (cases v) (auto simp: array_of_def)
  have "\<exists>s'. foldM f xs s = Inr s'"
    by (rule foldM_total) (use xs assms(2) in \<open>auto simp: list_all_iff\<close>)
  with Some v show ?thesis by (simp add: for_each_def dict_get_def)
qed

lemma ebind_append_node_total:
  assumes "hashable (nid n)" and "\<And>s1. \<exists>s'. body s1 = Inr s'"
  shows "\<exists>s'. ebind (append_node n s) body = Inr s'"
proof -
  from assms(1) obtain k where "hash_key (nid n) = Inr k"
    by (auto simp: hashable_def split: sum.splits)
  then show ?thesis using assms(2) by (simp add: append_node_def)
qed

lemma hashable_id:
  "id_ok kvs \<Longrightarrow> hashable (dict_get kvs ''id'' (JStr d))"
  by (auto simp: id_ok_def dict_get_def hashable_def split: option.splits)

lemma add_input_total:
  assumes "ok_input x"
  shows "\<exists>s'. add_input pid x s = Inr s'"
proof (cases x)
  case (JObj kvs)
  with assms have "id_ok kvs" by (simp add: ok_input_def object_with_def)
  then show ?thesis
    unfolding add_input_def JObj json.case Let_def
    by (intro ebind_append_node_total) (simp_all add: hashable_id)
qed (simp_all add: add_input_def)

lemma add_output_total:
  assumes "ok_output (snd p)"
  shows "\<exists>s'. add_output pid p s = Inr s'"
proof (cases "snd p")
  case (JObj kvs)
  with assms have "id_ok kvs" by (simp add: ok_output_def object_with_def)
  then have "hashable (output_id_of pid (fst p) kvs)"
    by (auto simp: id_ok_def output_id_of_def hashable_def split: option.splits)
  then obtain k where k: "hash_key (output_id_of pid (fst p) kvs) = Inr k"
    by (auto simp: hashable_def split: sum.splits)
  then have "hash_key (nid (output_node_of pid (fst p) kvs)) = Inr k"
    by (simp add: output_node_of_def)
  with k show ?thesis
    by (cases "node_map s k") (simp_all add: add_output_def JObj append_node_def)
qed (simp_all add: add_output_def)

lemma nested_outputs_ok:
  "list_all ok_input ins \<Longrightarrow> list_all ok_output (nested_outputs_of ins)"
proof (induction ins)
  case Nil
  then show ?case by simp
next
  case (Cons x ins)
  then have IH: "list_all ok_output (nested_outputs_of ins)" and x: "ok_input x"
    by simp_all
  show ?case
  proof (cases x)
    case x_obj: (JObj kvs)
    show ?thesis
    proof (cases "map_of kvs ''outputs''")
      case None
      with IH show ?thesis by (simp add: x_obj)
    next
      case (Some v)
      show ?thesis
      proof (cases v)
        case (JArr xs)
        from x have "list_all ok_output xs"
          by (simp add: ok_input_def object_with_def x_obj Some JArr)
        with IH show ?thesis by (simp add: x_obj Some JArr)
      next
        case (JObj d)
        from x have "id_ok d"
          by (simp add: ok_input_def object_with_def x_obj Some JObj)
        then have "ok_output (JObj d)" by (simp add: ok_output_def object_with_def)
        with IH show ?thesis by (simp add: x_obj Some JObj)
      qed (use IH in \<open>simp_all add: x_obj Some\<close>)
    qed
  qed (use IH in simp_all)
qed

lemma unique_outputs_total:
  "list_all ok_output xs \<Longrightarrow>
   \<exists>r. unique_outputs xs acc ids = Inr r \<and> set r \<subseteq> set acc \<union> set xs"
proof (induction xs arbitrary: acc ids)
  case Nil
  then show ?case by simp
next
  case (Cons x xs)
  then have xs: "list_all ok_output xs" and x: "ok_output x" by simp_all
  show ?case
  proof (cases x)
    case (JObj kvs)
    with x have "id_ok kvs" by (simp add: ok_output_def object_with_def)
    then obtain k where k: "hash_key (dict_get kvs ''id'' JNull) = Inr k"
      by (auto simp: id_ok_def dict_get_def hashable_def split: option.splits sum.splits)
    from Cons.IH [OF xs, of "acc @ [x]" "insert k ids"] Cons.IH [OF xs, of acc ids]
      Cons.IH [OF xs, of "acc @ [x]" ids] k
    show ?thesis by (auto simp: JObj Let_def)
  qed (use Cons.IH [OF xs, of acc ids] in auto)
qed

lemma array_of_iter:
  assumes "array_of P (map_of kvs k)"
  obtains xs where "py_iter (dict_get kvs k (JArr [])) = Inr xs" and "list_all P xs"
    and "dict_get kvs k (JArr []) = JArr xs"
proof (cases "map_of kvs k")
  case None
  then show ?thesis by (intro that [of "[]"]) (simp_all add: dict_get_def)
next
  case (Some v)
  with assms obtain xs where "v = JArr xs" and "list_all P xs"
    by (cases v) (auto simp: array_of_def)
  with Some show ?thesis by (intro that [of xs]) (simp_all add: dict_get_def)
qed

lemma ebind_total:
  assumes "\<exists>x. m = Inr x" and "\<And>x. \<exists>y. f x = Inr y"
  shows "\<exists>y. ebind m f = Inr y"
  using assms by auto

lemma add_application_total:
  assumes "ok_application x"
  shows "\<exists>s'. add_application pid x s = Inr s'"
proof (cases x)
  case (JObj kvs)
  with assms have id: "id_ok kvs" and i: "array_of ok_input (map_of kvs ''inputs'')"
    and o: "array_of ok_output (map_of kvs ''outputs'')"
    by (simp_all add: ok_application_def object_with_def)
  from i obtain ins where ins: "py_iter (dict_get kvs ''inputs'' (JArr [])) = Inr ins"
    and ins_ok: "list_all ok_input ins" by (rule array_of_iter)
  from o obtain standalone where st: "dict_get kvs ''outputs'' (JArr []) = JArr standalone"
    and st_ok: "list_all ok_output standalone" by (rule array_of_iter)
  from st_ok nested_outputs_ok [OF ins_ok]
  have "list_all ok_output (standalone @ nested_outputs_of ins)" by simp
  from unique_outputs_total [OF this, of "[]" "{}"] obtain outs where
      outs: "unique_outputs (standalone @ nested_outputs_of ins) [] {} = Inr outs"
      and "set outs \<subseteq> set (standalone @ nested_outputs_of ins)" by auto
  have outs_ok: "\<forall>p\<in>set (enumerate 0 outs). ok_output (snd p)"
  proof
    fix p assume "p \<in> set (enumerate 0 outs)"
    then have "snd p \<in> set (map snd (enumerate 0 outs))" by (simp del: map_snd_enumerate)
    then have "snd p \<in> set outs" by simp
    with \<open>set outs \<subseteq> set (standalone @ nested_outputs_of ins)\<close>
      \<open>list_all ok_output (standalone @ nested_outputs_of ins)\<close>
    show "ok_output (snd p)" by (auto simp: list_all_iff)
  qed
  show ?thesis
    unfolding add_application_def JObj json.case Let_def ins st py_concat.simps ebind_Inr outs
    by (intro ebind_append_node_total ebind_total foldM_total)
      (use id ins_ok outs_ok in
        \<open>auto simp: hashable_id list_all_iff intro: add_input_total add_output_total\<close>)
qed (simp_all add: add_application_def)

lemma add_technique_total:
  assumes "ok_technique x"
  shows "\<exists>s'. add_technique pid x s = Inr s'"
proof (cases x)
  case (JObj kvs)
  with assms have id: "id_ok kvs" and c: "array_of ok_application (map_of kvs ''applications'')"
    by (simp_all add: ok_technique_def object_with_def)
  show ?thesis
    unfolding add_technique_def JObj json.case Let_def
    by (intro ebind_append_node_total for_each_total [OF c] add_application_total)
      (simp_all add: hashable_id id)
qed (simp_all add: add_technique_def)

lemma add_integration_total:
  assumes "ok_integration x"
  shows "\<exists>s'. add_integration pid x s = Inr s'"
proof (cases x)
  case (JObj kvs)
  with assms have id: "id_ok kvs" and c: "array_of ok_technique (map_of kvs ''techniques'')"
    by (simp_all add: ok_integration_def object_with_def)
  show ?thesis
  proof (cases "kvs = []")
    case True
    then show ?thesis by (simp add: add_integration_def JObj)
  next
    case False
    show ?thesis
      unfolding add_integration_def JObj json.case Let_def if_not_P [OF False]
      by (intro ebind_append_node_total for_each_total [OF c] add_technique_total)
        (simp_all add: hashable_id id)
  qed
qed (simp_all add: add_integration_def)

lemma add_specification_total:
  assumes "ok_specification x"
  shows "\<exists>s'. add_specification pid x s = Inr s'"
proof (cases x)
  case (JObj kvs)
  with assms have id: "id_ok kvs"
    and c: "case map_of kvs ''integration'' of None \<Rightarrow> True | Some i \<Rightarrow> ok_integration i"
    by (simp_all add: ok_specification_def object_with_def)
  from c have "ok_integration (dict_get kvs ''integration'' JNull)"
    by (auto simp: dict_get_def ok_integration_def object_with_def split: option.splits)
  then show ?thesis
    unfolding add_specification_def JObj json.case Let_def
    by (intro ebind_append_node_total add_integration_total) (simp_all add: hashable_id id)
qed (simp_all add: add_specification_def)

lemma add_function_total:
  assumes "ok_function x"
  shows "\<exists>s'. add_function pid x s = Inr s'"
proof (cases x)
  case (JObj kvs)
  with assms have id: "id_ok kvs" and c: "array_of ok_specification (map_of kvs ''specifications'')"
    by (simp_all add: ok_function_def object_with_def)
  show ?thesis
    unfolding add_function_def JObj json.case Let_def
    by (intro ebind_append_node_total for_each_total [OF c] add_specification_total)
      (simp_all add: hashable_id id)
qed (simp_all add: add_function_def)

lemma add_capability_total:
  assumes "ok_capability x"
  shows "\<exists>s'. add_capability pid x s = Inr s'"
proof (cases x)
  case (JObj kvs)
  with assms have id: "id_ok kvs" and c: "array_of ok_function (map_of kvs ''functions'')"
    by (simp_all add: ok_capability_def object_with_def)
  show ?thesis
    unfolding add_capability_def JObj json.case Let_def
    by (intro ebind_append_node_total for_each_total [OF c] add_function_total)
      (simp_all add: hashable_id id)
qed (simp_all add: add_capability_def)

lemma capabilities_of_total:
  assumes "ok_subcomponent (JObj kvs)"
  obtains xs where "capabilities_of (JObj kvs) = Inr (JArr xs)" and "list_all ok_capability xs"
proof (cases "map_of kvs ''capabilities''")
  case None
  then have "''capabilities'' \<notin> set (map fst kvs)" by (simp add: map_of_eq_None_iff)
  then show ?thesis by (intro that [of "[]"]) (simp_all add: capabilities_of_def)
next
  case (Some v)
  then have in_keys: "''capabilities'' \<in> set (map fst kvs)"
    by (metis map_of_eq_None_iff option.distinct(1) set_map)
  show ?thesis
  proof (cases v)
    case (JArr xs)
    with assms Some have "list_all ok_capability xs" by (simp add: ok_subcomponent_def)
    with Some JArr in_keys show ?thesis
      by (intro that [of xs]) (simp_all add: capabilities_of_def)
  next
    case (JObj ckvs)
    with assms Some have a: "array_of ok_capability (map_of ckvs ''items'')"
      by (simp add: ok_subcomponent_def)
    show ?thesis
    proof (cases "map_of ckvs ''items''")
      case None
      then have "''items'' \<notin> set (map fst ckvs)" by (simp add: map_of_eq_None_iff)
      with Some JObj in_keys show ?thesis
        by (intro that [of "[]"]) (simp_all add: capabilities_of_def)
    next
      case items: (Some w)
      then have "''items'' \<in> set (map fst ckvs)"
        by (metis map_of_eq_None_iff option.distinct(1) set_map)
      moreover from a items obtain xs where "w = JArr xs" and "list_all ok_capability xs"
        by (cases w) (auto simp: array_of_def)
      ultimately show ?thesis using Some JObj in_keys items
        by (intro that [of xs]) (simp_all add: capabilities_of_def)
    qed
  qed (use Some in_keys in \<open>auto intro!: that [of "[]"] simp: capabilities_of_def\<close>)
qed

lemma add_subcomponent_total:
  assumes "ok_subcomponent (snd p)"
  shows "\<exists>s'. add_subcomponent component_id p s = Inr s'"
proof -
  from assms obtain kvs where p: "p = (fst p, JObj kvs)" and ok: "ok_subcomponent (JObj kvs)"
    by (cases p, cases "snd p") (auto simp: ok_subcomponent_def)
  from ok obtain xs where caps: "capabilities_of (JObj kvs) = Inr (JArr xs)"
    and xs: "list_all ok_capability xs" by (rule capabilities_of_total)
  have "\<exists>s'. foldM (add_capability (fst p)) xs s1 = Inr s'" for s1
    by (rule foldM_total) (use xs in \<open>auto simp: list_all_iff intro: add_capability_total\<close>)
  then show ?thesis
    by (subst p) (simp add: add_subcomponent_def caps append_node_def for_each_def Let_def)
qed

lemma component_subcomponents_of_total:
  assumes "list_all (\<lambda>p. ok_subcomponent (snd p)) subs"
  shows "\<exists>sel. component_subcomponents_of component_id subs = Inr sel \<and> set sel \<subseteq> set subs"
  using assms
proof (induction subs)
  case Nil
  then show ?case by simp
next
  case (Cons p subs)
  then obtain sel where sel: "component_subcomponents_of component_id subs = Inr sel"
    and sub: "set sel \<subseteq> set subs" by auto
  from Cons.prems obtain s_id kvs where p: "p = (s_id, JObj kvs)"
    by (cases p, cases "snd p") (auto simp: ok_subcomponent_def)
  show ?case
  proof (cases "map_of kvs ''parent''")
    case None
    then have "''parent'' \<notin> set (map fst kvs)" by (simp add: map_of_eq_None_iff)
    with sel sub show ?thesis by (auto simp: p)
  next
    case (Some v)
    then have "''parent'' \<in> set (map fst kvs)"
      by (metis map_of_eq_None_iff option.distinct(1) set_map)
    with Some sel sub show ?thesis by (auto simp: p)
  qed
qed

lemma add_component_total:
  assumes "ok_component (snd p)" and "list_all (\<lambda>p. ok_subcomponent (snd p)) subs"
  shows "\<exists>s'. add_component root_id subs p s = Inr s'"
proof -
  from assms(1) obtain kvs nm where p: "p = (fst p, JObj kvs)" and nm: "map_of kvs ''name'' = Some nm"
    by (cases p, cases "snd p") (auto simp: ok_component_def)
  from component_subcomponents_of_total [OF assms(2)] obtain sel where
      sel: "component_subcomponents_of (fst p) subs = Inr sel" and sub: "set sel \<subseteq> set subs"
    by blast
  have "\<exists>s'. foldM (add_subcomponent (fst p)) sel s1 = Inr s'" for s1
    by (rule foldM_total)
      (use sub assms(2) in \<open>auto simp: list_all_iff intro!: add_subcomponent_total\<close>)
  then show ?thesis
    by (subst p) (simp add: add_component_def sel nm append_node_def Let_def)
qed

lemma build_graph_data_total:
  assumes "ok_root root_data"
    and "list_all (\<lambda>p. ok_component (snd p)) components"
    and "list_all (\<lambda>p. ok_subcomponent (snd p)) subcomponents"
  shows "\<exists>g. build_graph_data root_data components subcomponents = Inr g"
proof -
  from assms(1) obtain kvs root_id root_name root_description where
      r: "root_data = JObj kvs" and i: "map_of kvs ''id'' = Some root_id" "hashable root_id"
      and n: "map_of kvs ''name'' = Some root_name"
      and d: "map_of kvs ''description'' = Some root_description"
    by (cases root_data) (auto simp: ok_root_def split: option.splits)
  from i(2) obtain k where k: "hash_key root_id = Inr k"
    by (auto simp: hashable_def split: sum.splits)
  have "\<exists>s'. foldM (add_component root_id subcomponents) components s1 = Inr s'" for s1
    by (rule foldM_total)
      (use assms(2,3) in \<open>auto simp: list_all_iff intro!: add_component_total\<close>)
  then have "\<exists>g. ebind (foldM (add_component root_id subcomponents) components s1)
          (\<lambda>s. Inr \<lparr>g_nodes = nodes s, g_links = links s\<rparr>) = Inr g" for s1
    by (intro ebind_total) auto
  then show ?thesis
    by (simp add: build_graph_data_def r i n d append_node_def k Let_def)
qed

text \<open>
  Claim C6, as amended. On documents of the expected shape \<^verbatim>\<open>build_graph_data\<close> returns a
  graph; and at every level a fragment that is not an object is skipped: the builder's
  state is unchanged.
\<close>

theorem build_graph_data_returns:
  "(ok_root root_data \<and> list_all (\<lambda>p. ok_component (snd p)) components \<and>
      list_all (\<lambda>p. ok_subcomponent (snd p)) subcomponents \<longrightarrow>
      (\<exists>g. build_graph_data root_data components subcomponents = Inr g)) \<and>
   ((\<forall>kvs. x \<noteq> JObj kvs) \<longrightarrow>
      add_capability subcomp_id x s = Inr s \<and> add_function pid x s = Inr s \<and>
      add_specification pid x s = Inr s \<and> add_integration pid x s = Inr s \<and>
      add_technique pid x s = Inr s \<and> add_application pid x s = Inr s \<and>
      add_input pid x s = Inr s \<and> add_output pid (idx, x) s = Inr s)"
proof (intro conjI impI)
  assume "ok_root root_data \<and> list_all (\<lambda>p. ok_component (snd p)) components \<and>
      list_all (\<lambda>p. ok_subcomponent (snd p)) subcomponents"
  then show "\<exists>g. build_graph_data root_data components subcomponents = Inr g"
    by (simp add: build_graph_data_total)
next
  assume x: "\<forall>kvs. x \<noteq> JObj kvs"
  then show "add_capability subcomp_id x s = Inr s" by (cases x) (simp_all add: add_capability_def)
  from x show "add_function pid x s = Inr s" by (cases x) (simp_all add: add_function_def)
  from x show "add_specification pid x s = Inr s"
    by (cases x) (simp_all add: add_specification_def)
  from x show "add_integration pid x s = Inr s" by (cases x) (simp_all add: add_integration_def)
  from x show "add_technique pid x s = Inr s" by (cases x) (simp_all add: add_technique_def)
  from x show "add_application pid x s = Inr s" by (cases x) (simp_all add: add_application_def)
  from x show "add_input pid x s = Inr s" by (cases x) (simp_all add: add_input_def)
  from x show "add_output pid (idx, x) s = Inr s" by (cases x) (simp_all add: add_output_def)
qed

lemmas shape_defs = ok_root_def ok_component_def ok_subcomponent_def ok_capability_def
  ok_function_def ok_specification_def ok_integration_def ok_technique_def
  ok_application_def ok_input_def ok_output_def object_with_def array_of_def id_ok_def
  hashable_def

theorem build_graph_data_returns_witness:
  "(\<exists>g. build_graph_data example_root example_components example_subcomponents = Inr g) \<and>
   add_capability ''s1'' (JStr ''note'') empty_state = Inr empty_state \<and>
   add_function (JStr ''p'') (JStr ''note'') empty_state = Inr empty_state \<and>
   add_specification (JStr ''p'') (JStr ''note'') empty_state = Inr empty_state \<and>
   add_integration (JStr ''p'') (JStr ''note'') empty_state = Inr empty_state \<and>
   add_technique (JStr ''p'') (JStr ''note'') empty_state = Inr empty_state \<and>
   add_application (JStr ''p'') (JStr ''note'') empty_state = Inr empty_state \<and>
   add_input (JStr ''p'') (JStr ''note'') empty_state = Inr empty_state \<and>
   add_output (JStr ''p'') (0, JStr ''note'') empty_state = Inr empty_state"
proof -
  have 1: "ok_root example_root \<and> list_all (\<lambda>p. ok_component (snd p)) example_components \<and>
      list_all (\<lambda>p. ok_subcomponent (snd p)) example_subcomponents"
    by (simp add: shape_defs example_defs)
  have 2: "\<forall>kvs. JStr ''note'' \<noteq> JObj kvs" by simp
  note t = build_graph_data_returns [of example_root example_components example_subcomponents
      "JStr ''note''" "''s1''" empty_state "JStr ''p''" 0]
  from t [THEN conjunct1, THEN mp, OF 1] t [THEN conjunct2, THEN mp, OF 2]
  show ?thesis by (rule conjI)
qed

text \<open>
  The claim as stated fails at two inputs outside the expected shape: for a root document
  without a name and no components, and for the example root with one component without
  a name, \<^verbatim>\<open>build_graph_data\<close> returns no graph.
\<close>

theorem build_graph_data_returns_counterexample:
  "build_graph_data (JObj [(''id'', JStr ''ai-alignment''), (''description'', JStr ''root'')])
     [] [] = Inl KeyError \<and>
   build_graph_data example_root [(''c1'', JObj [(''description'', JStr ''no name'')])] []
     = Inl KeyError"
  by (simp add: builder_defs example_root_def)

end
